theory Spec2Isabelle
  imports Main "HOL-Library.Word"
begin

section \<open>JavaScript values\<close>

text \<open>
  A JavaScript string is a sequence of 16-bit code units; a \<open>Uint8Array\<close> is a sequence
  of bytes. Socket ids, room ids, message ids and emoji are all strings.
\<close>

type_synonym byte = "8 word"
type_synonym jsstring = "16 word list"

definition js :: "string \<Rightarrow> jsstring" where
  "js s = map of_char s"

section \<open>SocketService, the relay (class SocketService in src/app/api/auth/wallet/route.ts)\<close>

subsection \<open>The socket.io adapter\<close>

text \<open>
  The adapter of socket.io keeps, for every room name, the set of socket ids joined to it
  (\<open>Map<Room, Set<SocketId>>\<close>, a \<open>Set\<close> iterating in insertion order). It is a list
  without repetitions here, so that the number of deliveries can be counted.
  \<open>socket.join(room)\<close> adds the socket to the room, a new socket joins the room named
  by its own id, and a disconnecting socket leaves every room.
  \<open>socket.to(room).emit(e)\<close> is a broadcast to \<open>room\<close> with the room named
  \<open>socket.id\<close> as its exception (socket.io 4): \<open>e\<close> goes to every socket of \<open>room\<close>
  that is not in the room named by the sender's id. The sender is in that room, and so is
  any other socket that has joined it.
\<close>

type_synonym adapter = "jsstring \<Rightarrow> jsstring list"

definition no_rooms :: adapter where
  "no_rooms = (\<lambda>room. [])"

definition socket_join :: "jsstring \<Rightarrow> jsstring \<Rightarrow> adapter \<Rightarrow> adapter" where
  "socket_join sid room rooms =
     rooms(room := (if sid \<in> set (rooms room) then rooms room else rooms room @ [sid]))"

definition socket_to_emit :: "jsstring \<Rightarrow> jsstring \<Rightarrow> 'e \<Rightarrow> adapter \<Rightarrow> (jsstring \<times> 'e) list" where
  "socket_to_emit sid room e rooms =
     map (\<lambda>c. (c, e)) (filter (\<lambda>c. c \<notin> set (rooms sid)) (rooms room))"

definition socket_leave_all :: "jsstring \<Rightarrow> adapter \<Rightarrow> adapter" where
  "socket_leave_all sid rooms = (\<lambda>room. removeAll sid (rooms room))"

subsection \<open>The wire events\<close>

text \<open>
  The payloads are the object types written in the handlers of \<open>SocketService.initIO\<close>;
  the arguments of each constructor are the fields in the order given.
\<close>

datatype media_payload = MediaPayload
  (encryptedData: jsstring) (mediaType: jsstring) (mediaHash: jsstring)

datatype inbound =
    join_room jsstring jsstring
      \<comment> \<open>\<open>(roomId, userId)\<close>\<close>
  | send_message jsstring jsstring jsstring jsstring jsstring "jsstring option" "media_payload option"
      \<comment> \<open>\<open>{id, roomId, encryptedMessage, sender, timestamp, replyTo?, media?}\<close>\<close>
  | edit_message jsstring jsstring jsstring jsstring
      \<comment> \<open>\<open>{id, roomId, encryptedMessage, editedAt}\<close>\<close>
  | delete_message jsstring jsstring
      \<comment> \<open>\<open>{id, roomId}\<close>\<close>
  | message_reaction jsstring jsstring jsstring "bool option"
      \<comment> \<open>\<open>{messageId, roomId, emoji, remove?}\<close>\<close>
  | message_read jsstring jsstring jsstring
      \<comment> \<open>\<open>{messageId, userId, roomId}\<close>\<close>
  | user_typing jsstring jsstring
      \<comment> \<open>\<open>{userId, roomId}\<close>\<close>
  | exchange_keys jsstring jsstring jsstring
      \<comment> \<open>\<open>{userId, publicKey, recipientId}\<close>\<close>

datatype outbound =
    user_connected jsstring
      \<comment> \<open>\<open>userId\<close>\<close>
  | receive_message jsstring jsstring jsstring jsstring "jsstring option" "media_payload option"
      \<comment> \<open>\<open>{id, encryptedMessage, sender, timestamp, replyTo, media}\<close>\<close>
  | message_edit jsstring jsstring jsstring jsstring
      \<comment> \<open>\<open>{id, encryptedMessage, sender, editedAt}\<close>\<close>
  | message_delete jsstring jsstring
      \<comment> \<open>\<open>{id, sender}\<close>\<close>
  | message_reaction_relayed jsstring jsstring jsstring "bool option"
      \<comment> \<open>\<open>{messageId, userId, emoji, remove}\<close>\<close>
  | message_read_relayed jsstring jsstring
      \<comment> \<open>\<open>{messageId, userId}\<close>\<close>
  | user_typing_relayed jsstring jsstring
      \<comment> \<open>\<open>{userId, roomId}\<close>: the inbound object is passed on whole\<close>
  | exchange_keys_relayed jsstring jsstring
      \<comment> \<open>\<open>{userId, publicKey}\<close>\<close>

subsection \<open>The handlers registered on a connection\<close>

text \<open>
  \<open>on_event sid e rooms\<close> is the handler that the socket \<open>sid\<close> runs for the inbound
  event \<open>e\<close>: the adapter afterwards and the deliveries made, each a pair of the receiving
  socket and the event it gets.
\<close>

fun on_event :: "jsstring \<Rightarrow> inbound \<Rightarrow> adapter \<Rightarrow> adapter \<times> (jsstring \<times> outbound) list" where
  "on_event sid (join_room roomId userId) rooms =
     (let rooms' = socket_join sid roomId rooms
      in (rooms', socket_to_emit sid roomId (user_connected userId) rooms'))"
| "on_event sid (send_message ident roomId encryptedMessage sender timestamp replyTo media) rooms =
     (rooms, socket_to_emit sid roomId
        (receive_message ident encryptedMessage sender timestamp replyTo media) rooms)"
| "on_event sid (edit_message ident roomId encryptedMessage editedAt) rooms =
     (rooms, socket_to_emit sid roomId (message_edit ident encryptedMessage sid editedAt) rooms)"
| "on_event sid (delete_message ident roomId) rooms =
     (rooms, socket_to_emit sid roomId (message_delete ident sid) rooms)"
| "on_event sid (message_reaction messageId roomId emoji remove) rooms =
     (rooms, socket_to_emit sid roomId (message_reaction_relayed messageId sid emoji remove) rooms)"
| "on_event sid (message_read messageId userId roomId) rooms =
     (rooms, socket_to_emit sid roomId (message_read_relayed messageId userId) rooms)"
| "on_event sid (user_typing userId roomId) rooms =
     (rooms, socket_to_emit sid roomId (user_typing_relayed userId roomId) rooms)"
| "on_event sid (exchange_keys userId publicKey recipientId) rooms =
     (rooms, socket_to_emit sid recipientId (exchange_keys_relayed userId publicKey) rooms)"

text \<open>The room an inbound event is published to.\<close>

fun room_of :: "inbound \<Rightarrow> jsstring" where
  "room_of (join_room roomId userId) = roomId"
| "room_of (send_message ident roomId encryptedMessage sender timestamp replyTo media) = roomId"
| "room_of (edit_message ident roomId encryptedMessage editedAt) = roomId"
| "room_of (delete_message ident roomId) = roomId"
| "room_of (message_reaction messageId roomId emoji remove) = roomId"
| "room_of (message_read messageId userId roomId) = roomId"
| "room_of (user_typing userId roomId) = roomId"
| "room_of (exchange_keys userId publicKey recipientId) = recipientId"

text \<open>
  What the server goes through: connections, events and disconnections. A socket has its
  handlers from its connection to its disconnection, which is the time it is in the room
  named by its own id: the code never calls \<open>socket.leave\<close>.
\<close>

datatype server_input =
    Connection jsstring
  | Event jsstring inbound
  | Disconnect jsstring

fun server_step :: "adapter \<Rightarrow> server_input \<Rightarrow> adapter" where
  "server_step rooms (Connection sid) = socket_join sid sid rooms"
| "server_step rooms (Event sid e) =
     (if sid \<in> set (rooms sid) then fst (on_event sid e rooms) else rooms)"
| "server_step rooms (Disconnect sid) = socket_leave_all sid rooms"

definition serve :: "server_input list \<Rightarrow> adapter" where
  "serve inputs = foldl server_step no_rooms inputs"

definition deliveries_to :: "jsstring \<Rightarrow> (jsstring \<times> 'e) list \<Rightarrow> nat" where
  "deliveries_to c ds = length (filter (\<lambda>d. fst d = c) ds)"

section \<open>TextEncoder and TextDecoder\<close>

text \<open>
  \<open>new TextEncoder().encode(s)\<close> reads the string as Unicode scalar values, an unpaired
  surrogate counting as U+FFFD, and writes each in UTF-8.
\<close>

definition isLeadSurrogate :: "16 word \<Rightarrow> bool" where
  "isLeadSurrogate c = (0xD800 \<le> c \<and> c \<le> 0xDBFF)"

definition isTrailSurrogate :: "16 word \<Rightarrow> bool" where
  "isTrailSurrogate c = (0xDC00 \<le> c \<and> c \<le> 0xDFFF)"

fun toScalarValues :: "jsstring \<Rightarrow> nat list" where
  "toScalarValues [] = []"
| "toScalarValues [c] = [if isLeadSurrogate c \<or> isTrailSurrogate c then 0xFFFD else unat c]"
| "toScalarValues (c # d # cs) =
     (if isLeadSurrogate c \<and> isTrailSurrogate d
      then (0x10000 + (unat c - 0xD800) * 0x400 + (unat d - 0xDC00)) # toScalarValues cs
      else (if isLeadSurrogate c \<or> isTrailSurrogate c then 0xFFFD else unat c)
             # toScalarValues (d # cs))"

definition utf8Bytes :: "nat \<Rightarrow> nat list" where
  "utf8Bytes cp =
     (if cp < 0x80 then [cp]
      else if cp < 0x800 then [0xC0 + cp div 0x40, 0x80 + cp mod 0x40]
      else if cp < 0x10000 then
        [0xE0 + cp div 0x1000, 0x80 + cp div 0x40 mod 0x40, 0x80 + cp mod 0x40]
      else
        [0xF0 + cp div 0x40000, 0x80 + cp div 0x1000 mod 0x40, 0x80 + cp div 0x40 mod 0x40,
         0x80 + cp mod 0x40])"

definition TextEncoder_encode :: "jsstring \<Rightarrow> byte list" where
  "TextEncoder_encode s = map of_nat (concat (map utf8Bytes (toScalarValues s)))"

text \<open>
  \<open>new TextDecoder().decode(bytes)\<close> is the UTF-8 decoder of the Encoding Standard, not
  fatal: a state of the code point collected so far, the bytes still needed and the
  bounds of the next byte; a byte that does not fit gives U+FFFD and is read again from
  the start state, and so does the end of the input inside a sequence. A leading U+FEFF
  is dropped (\<open>ignoreBOM\<close> is false), and the code points are written in UTF-16.
\<close>

record utf8_state =
  codePoint :: nat
  bytesNeeded :: nat
  lowerBoundary :: nat
  upperBoundary :: nat

definition utf8_start :: utf8_state where
  "utf8_start = \<lparr>codePoint = 0, bytesNeeded = 0, lowerBoundary = 0x80, upperBoundary = 0xBF\<rparr>"

definition utf8_lead :: "nat \<Rightarrow> utf8_state \<times> nat list" where
  "utf8_lead b =
     (if b \<le> 0x7F then (utf8_start, [b])
      else if 0xC2 \<le> b \<and> b \<le> 0xDF then
        (\<lparr>codePoint = b mod 0x20, bytesNeeded = 1, lowerBoundary = 0x80, upperBoundary = 0xBF\<rparr>, [])
      else if 0xE0 \<le> b \<and> b \<le> 0xEF then
        (\<lparr>codePoint = b mod 0x10, bytesNeeded = 2,
          lowerBoundary = (if b = 0xE0 then 0xA0 else 0x80),
          upperBoundary = (if b = 0xED then 0x9F else 0xBF)\<rparr>, [])
      else if 0xF0 \<le> b \<and> b \<le> 0xF4 then
        (\<lparr>codePoint = b mod 0x08, bytesNeeded = 3,
          lowerBoundary = (if b = 0xF0 then 0x90 else 0x80),
          upperBoundary = (if b = 0xF4 then 0x8F else 0xBF)\<rparr>, [])
      else (utf8_start, [0xFFFD]))"

definition utf8_step :: "utf8_state \<Rightarrow> nat \<Rightarrow> utf8_state \<times> nat list" where
  "utf8_step st b =
     (if bytesNeeded st = 0 then utf8_lead b
      else if b < lowerBoundary st \<or> upperBoundary st < b then
        (case utf8_lead b of (st', out) \<Rightarrow> (st', 0xFFFD # out))
      else
        (let cp = codePoint st * 0x40 + b mod 0x40
         in if bytesNeeded st = 1 then (utf8_start, [cp])
            else (\<lparr>codePoint = cp, bytesNeeded = bytesNeeded st - 1,
                   lowerBoundary = 0x80, upperBoundary = 0xBF\<rparr>, [])))"

fun utf8_decode :: "utf8_state \<Rightarrow> nat list \<Rightarrow> nat list" where
  "utf8_decode st [] = (if bytesNeeded st = 0 then [] else [0xFFFD])"
| "utf8_decode st (b # bs) = (case utf8_step st b of (st', out) \<Rightarrow> out @ utf8_decode st' bs)"

fun dropBOM :: "nat list \<Rightarrow> nat list" where
  "dropBOM [] = []"
| "dropBOM (cp # cps) = (if cp = 0xFEFF then cps else cp # cps)"

definition utf16Units :: "nat \<Rightarrow> jsstring" where
  "utf16Units cp =
     (if cp < 0x10000 then [of_nat cp]
      else [of_nat (0xD800 + (cp - 0x10000) div 0x400), of_nat (0xDC00 + (cp - 0x10000) mod 0x400)])"

definition TextDecoder_decode :: "byte list \<Rightarrow> jsstring" where
  "TextDecoder_decode bytes = concat (map utf16Units (dropBOM (utf8_decode utf8_start (map unat bytes))))"

text \<open>A scalar value is a code point that is not a surrogate.\<close>

definition scalarValue :: "nat \<Rightarrow> bool" where
  "scalarValue cp = (cp < 0x110000 \<and> \<not> (0xD800 \<le> cp \<and> cp \<le> 0xDFFF))"

text \<open>A string without unpaired surrogates.\<close>

fun wellFormed :: "jsstring \<Rightarrow> bool" where
  "wellFormed [] = True"
| "wellFormed [c] = (\<not> isLeadSurrogate c \<and> \<not> isTrailSurrogate c)"
| "wellFormed (c # d # cs) =
     (if isLeadSurrogate c \<and> isTrailSurrogate d then wellFormed cs
      else \<not> isLeadSurrogate c \<and> \<not> isTrailSurrogate c \<and> wellFormed (d # cs))"

section \<open>EncryptionService (class EncryptionService in src/app/api/auth/wallet/route.ts)\<close>

subsection \<open>The browser's primitives\<close>

text \<open>
  The service calls \<open>window.crypto.subtle\<close>, \<open>btoa\<close> and \<open>atob\<close>. They are parameters:
  \<open>isKeyPair\<close> holds of the pairs that \<open>generateKey\<close> (ECDH, P-256) can return;
  \<open>exportKey\<close> and \<open>importKey\<close> are the \<open>raw\<close> format of a public key, \<open>importKey\<close>
  rejecting with \<open>None\<close>; \<open>deriveBits\<close> gives the 256 bits agreed between a public and
  a private key, which are the AES-GCM key as they are; \<open>aesGcmEncrypt key iv data\<close> is
  the ciphertext followed by the tag, and \<open>aesGcmDecrypt\<close> rejects with \<open>None\<close>;
  \<open>btoa\<close> and \<open>atob\<close> throw with \<open>None\<close>; \<open>sha256\<close> is \<open>digest\<close>.
\<close>

record ('pub, 'priv) CryptoKeyPair =
  publicKey :: 'pub
  privateKey :: 'priv

record ('pub, 'priv) browser =
  isKeyPair :: "('pub, 'priv) CryptoKeyPair \<Rightarrow> bool"
  exportKey :: "'pub \<Rightarrow> byte list"
  importKey :: "byte list \<Rightarrow> 'pub option"
  deriveBits :: "'pub \<Rightarrow> 'priv \<Rightarrow> byte list"
  aesGcmEncrypt :: "byte list \<Rightarrow> byte list \<Rightarrow> byte list \<Rightarrow> byte list"
  aesGcmDecrypt :: "byte list \<Rightarrow> byte list \<Rightarrow> byte list \<Rightarrow> byte list option"
  btoa :: "jsstring \<Rightarrow> jsstring option"
  atob :: "jsstring \<Rightarrow> jsstring option"
  sha256 :: "byte list \<Rightarrow> byte list"

text \<open>
  What the primitives promise: the two sides of a Diffie-Hellman agreement derive the same
  bits; a raw export of a public key imports to that key; AES-GCM decrypts what it
  encrypted under the same key and nonce; \<open>atob\<close> inverts \<open>btoa\<close> on the strings of
  code units below 256, which are the ones \<open>btoa\<close> accepts.
\<close>

definition lawful :: "('pub, 'priv) browser \<Rightarrow> bool" where
  "lawful br =
     ((\<forall>a b. isKeyPair br a \<and> isKeyPair br b \<longrightarrow>
          deriveBits br (publicKey b) (privateKey a) = deriveBits br (publicKey a) (privateKey b)) \<and>
      (\<forall>k. importKey br (exportKey br k) = Some k) \<and>
      (\<forall>key iv d. aesGcmDecrypt br key iv (aesGcmEncrypt br key iv d) = Some d) \<and>
      (\<forall>s. (\<forall>c \<in> set s. c \<le> 0xFF) \<longrightarrow> (\<exists>e. btoa br s = Some e \<and> atob br e = Some s)))"

subsection \<open>The service\<close>

datatype error =
    NoPublicKeyFound jsstring
      \<comment> \<open>\<open>new Error(`No public key found for user ${id}`)\<close>\<close>
  | TypeError
      \<comment> \<open>reading \<open>privateKey\<close> of the \<open>null\<close> key pair\<close>
  | DataError
      \<comment> \<open>\<open>importKey\<close> rejected\<close>
  | OperationError
      \<comment> \<open>\<open>decrypt\<close> rejected\<close>
  | InvalidCharacterError
      \<comment> \<open>\<open>btoa\<close> or \<open>atob\<close> threw\<close>
  | FailedToDecryptMedia
      \<comment> \<open>\<open>new Error("Failed to decrypt media")\<close>\<close>

record ('pub, 'priv) EncryptionService =
  keyPair :: "('pub, 'priv) CryptoKeyPair option"
  peerPublicKeys :: "jsstring \<rightharpoonup> 'pub"

definition newEncryptionService :: "('pub, 'priv) EncryptionService" where
  "newEncryptionService = \<lparr>keyPair = None, peerPublicKeys = Map.empty\<rparr>"

definition arrayBufferToBase64 :: "('pub, 'priv) browser \<Rightarrow> byte list \<Rightarrow> error + jsstring" where
  "arrayBufferToBase64 br buffer =
     (case btoa br (map ucast buffer) of
        None \<Rightarrow> Inl InvalidCharacterError
      | Some base64 \<Rightarrow> Inr base64)"

definition base64ToArrayBuffer :: "('pub, 'priv) browser \<Rightarrow> jsstring \<Rightarrow> error + byte list" where
  "base64ToArrayBuffer br base64 =
     (case atob br base64 of
        None \<Rightarrow> Inl InvalidCharacterError
      | Some binaryString \<Rightarrow> Inr (map ucast binaryString))"

text \<open>
  \<open>generateKeyPair generated svc\<close>: \<open>generated\<close> is the pair that \<open>generateKey\<close> returns
  in this call.
\<close>

definition generateKeyPair ::
  "('pub, 'priv) CryptoKeyPair \<Rightarrow> ('pub, 'priv) EncryptionService \<Rightarrow> ('pub, 'priv) EncryptionService" where
  "generateKeyPair generated svc = svc\<lparr>keyPair := Some generated\<rparr>"

definition getPublicKeyAsString ::
  "('pub, 'priv) browser \<Rightarrow> ('pub, 'priv) CryptoKeyPair \<Rightarrow> ('pub, 'priv) EncryptionService \<Rightarrow>
     (error + jsstring) \<times> ('pub, 'priv) EncryptionService" where
  "getPublicKeyAsString br generated svc =
     (let svc' = (if keyPair svc = None then generateKeyPair generated svc else svc)
      in case keyPair svc' of
           None \<Rightarrow> (Inl TypeError, svc')
         | Some kp \<Rightarrow> (arrayBufferToBase64 br (exportKey br (publicKey kp)), svc'))"

definition addPeerPublicKey ::
  "('pub, 'priv) browser \<Rightarrow> jsstring \<Rightarrow> jsstring \<Rightarrow> ('pub, 'priv) EncryptionService \<Rightarrow>
     error + ('pub, 'priv) EncryptionService" where
  "addPeerPublicKey br userId publicKeyString svc =
     (case base64ToArrayBuffer br publicKeyString of
        Inl e \<Rightarrow> Inl e
      | Inr publicKeyBuffer \<Rightarrow>
          (case importKey br publicKeyBuffer of
             None \<Rightarrow> Inl DataError
           | Some k \<Rightarrow> Inr (svc\<lparr>peerPublicKeys := (peerPublicKeys svc)(userId \<mapsto> k)\<rparr>)))"

text \<open>
  \<open>encryptMessage br iv message recipientId svc\<close>: \<open>iv\<close> is what
  \<open>getRandomValues(new Uint8Array(12))\<close> returns in this call.
\<close>

definition encryptMessage ::
  "('pub, 'priv) browser \<Rightarrow> byte list \<Rightarrow> jsstring \<Rightarrow> jsstring \<Rightarrow> ('pub, 'priv) EncryptionService \<Rightarrow>
     error + jsstring" where
  "encryptMessage br iv message recipientId svc =
     (case peerPublicKeys svc recipientId of
        None \<Rightarrow> Inl (NoPublicKeyFound recipientId)
      | Some recipientPublicKey \<Rightarrow>
          (case keyPair svc of
             None \<Rightarrow> Inl TypeError
           | Some kp \<Rightarrow>
               (let sharedSecret = deriveBits br recipientPublicKey (privateKey kp);
                    messageBuffer = TextEncoder_encode message;
                    encryptedBuffer = aesGcmEncrypt br sharedSecret iv messageBuffer
                in arrayBufferToBase64 br (iv @ encryptedBuffer))))"

definition decryptMessage ::
  "('pub, 'priv) browser \<Rightarrow> jsstring \<Rightarrow> jsstring \<Rightarrow> ('pub, 'priv) EncryptionService \<Rightarrow>
     error + jsstring" where
  "decryptMessage br encryptedMessage senderId svc =
     (case peerPublicKeys svc senderId of
        None \<Rightarrow> Inl (NoPublicKeyFound senderId)
      | Some senderPublicKey \<Rightarrow>
          (case keyPair svc of
             None \<Rightarrow> Inl TypeError
           | Some kp \<Rightarrow>
               (let sharedSecret = deriveBits br senderPublicKey (privateKey kp)
                in case base64ToArrayBuffer br encryptedMessage of
                     Inl e \<Rightarrow> Inl e
                   | Inr encryptedBuffer \<Rightarrow>
                       (let iv = take 12 encryptedBuffer;
                            data = drop 12 encryptedBuffer
                        in case aesGcmDecrypt br sharedSecret iv data of
                             None \<Rightarrow> Inl OperationError
                           | Some decryptedBuffer \<Rightarrow> Inr (TextDecoder_decode decryptedBuffer)))))"

text \<open>
  A small instance of the primitives, to run the service on: keys are bytes, the agreed
  bits are the product of the two keys, the ciphertext is the data with the key and the
  nonce in front as its tag, and base64 leaves the binary string as it is.
\<close>

definition toy :: "(byte, byte) browser" where
  "toy = \<lparr>isKeyPair = (\<lambda>kp. publicKey kp = privateKey kp),
          exportKey = (\<lambda>k. [k]),
          importKey = (\<lambda>bs. case bs of [k] \<Rightarrow> Some k | _ \<Rightarrow> None),
          deriveBits = (\<lambda>pub priv. [pub * priv]),
          aesGcmEncrypt = (\<lambda>key iv d. key @ iv @ d),
          aesGcmDecrypt = (\<lambda>key iv d.
             if take (length key + length iv) d = key @ iv
             then Some (drop (length key + length iv) d) else None),
          btoa = (\<lambda>s. if \<forall>c \<in> set s. c \<le> 0xFF then Some s else None),
          atob = (\<lambda>s. if \<forall>c \<in> set s. c \<le> 0xFF then Some s else None),
          sha256 = (\<lambda>d. d)\<rparr>"

section \<open>MediaEncryptionService (src/unnamed/part_001)\<close>

definition decryptMedia :: "('pub, 'priv) browser \<Rightarrow> jsstring \<Rightarrow> jsstring \<Rightarrow> error + jsstring" where
  "decryptMedia br encryptedMedia senderId =
     (case atob br encryptedMedia of
        None \<Rightarrow> Inl FailedToDecryptMedia
      | Some decodedData \<Rightarrow> Inr (take (length decodedData - length senderId) decodedData))"

definition hexDigit :: "nat \<Rightarrow> 16 word" where
  "hexDigit n = (if n < 10 then of_nat (0x30 + n) else of_nat (0x61 + (n - 10)))"

definition calculateHash :: "('pub, 'priv) browser \<Rightarrow> jsstring \<Rightarrow> jsstring" where
  "calculateHash br d =
     concat (map (\<lambda>b. [hexDigit (unat b div 16), hexDigit (unat b mod 16)])
       (sha256 br (TextEncoder_encode d)))"

section \<open>The chat session (src/contexts/socket-context.tsx, src/components/chat.tsx)\<close>

subsection \<open>Messages\<close>

record Reaction =
  emoji :: jsstring
  userId :: jsstring

record Media =
  type' :: jsstring
  data :: jsstring
  hash :: jsstring
  verified :: bool

record Message =
  id' :: jsstring
  text' :: jsstring
  sender :: jsstring
  timestamp :: jsstring
  isDecrypted :: bool
  editedAt :: "jsstring option"
  reactions :: "Reaction list option"
  media :: "Media option"
  replyTo :: "jsstring option"
  isDeleted :: "bool option"
  readBy :: "jsstring list option"

record TypingUser =
  userId :: jsstring
  timestamp :: int

text \<open>
  A string that may be \<open>null\<close> is an option; \<open>null\<close> and the empty string are the
  ones that count as false in a condition.
\<close>

definition truthy :: "jsstring option \<Rightarrow> bool" where
  "truthy s = (s \<noteq> None \<and> s \<noteq> Some [])"

definition orUnknown :: "jsstring option \<Rightarrow> jsstring" where
  \<comment> \<open>\<open>userId || "unknown"\<close>\<close>
  "orUnknown uid = (if truthy uid then the uid else js ''unknown'')"



subsection \<open>sendMessage of the socket context\<close>

text \<open>
  \<open>socket\<close> tells whether the socket object exists; \<open>messageId\<close> and \<open>now\<close> are the
  id and the time stamp made in the call. The result is what is emitted.
\<close>

definition sendMessage ::
  "('pub, 'priv) browser \<Rightarrow> byte list \<Rightarrow> bool \<Rightarrow> jsstring option \<Rightarrow> ('pub, 'priv) EncryptionService \<Rightarrow>
     jsstring \<Rightarrow> jsstring \<Rightarrow> jsstring \<Rightarrow> jsstring \<Rightarrow> jsstring \<Rightarrow> media_payload option \<Rightarrow>
     jsstring option \<Rightarrow> inbound list" where
  "sendMessage br iv socket uid svc messageId now roomId message recipientId mediaData replyToId =
     (if socket \<and> truthy uid then
        (case encryptMessage br iv message recipientId svc of
           Inl e \<Rightarrow> []
         | Inr encryptedMessage \<Rightarrow>
             [send_message messageId roomId encryptedMessage (the uid) now
                (if truthy replyToId then replyToId else None) mediaData])
      else [])"

subsection \<open>The handlers of the relayed events\<close>

definition undecryptable :: "jsstring \<Rightarrow> jsstring \<Rightarrow> jsstring \<Rightarrow> Message" where
  "undecryptable ident from now =
     \<lparr>id' = ident, text' = js ''[Encrypted message - unable to decrypt]'', sender = from,
      timestamp = now, isDecrypted = False, editedAt = None, reactions = Some [], media = None,
      replyTo = None, isDeleted = None, readBy = Some []\<rparr>"

definition receiveMedia ::
  "('pub, 'priv) browser \<Rightarrow> media_payload option \<Rightarrow> jsstring \<Rightarrow> error + Media option" where
  "receiveMedia br mediaData from =
     (case mediaData of
        None \<Rightarrow> Inr None
      | Some m \<Rightarrow>
          (case decryptMedia br (encryptedData m) from of
             Inl e \<Rightarrow> Inl e
           | Inr decryptedMedia \<Rightarrow>
               (let calculatedHash = calculateHash br decryptedMedia;
                    mediaVerified = (calculatedHash = mediaHash m)
                in Inr (Some \<lparr>type' = mediaType m, data = decryptedMedia, hash = mediaHash m,
                              verified = mediaVerified\<rparr>))))"

text \<open>
  \<open>handleReceiveMessage\<close> on the payload \<open>{id, encryptedMessage, sender, timestamp,
  replyTo, media}\<close>: the message list afterwards and what is emitted. Whatever is thrown
  inside the \<open>try\<close> is caught, and the placeholder is appended.
\<close>

definition handleReceiveMessage ::
  "('pub, 'priv) browser \<Rightarrow> bool \<Rightarrow> jsstring option \<Rightarrow> jsstring option \<Rightarrow>
     ('pub, 'priv) EncryptionService \<Rightarrow> jsstring \<Rightarrow> jsstring \<Rightarrow> jsstring \<Rightarrow> jsstring \<Rightarrow>
     jsstring option \<Rightarrow> media_payload option \<Rightarrow> Message list \<Rightarrow> Message list \<times> inbound list" where
  "handleReceiveMessage br socket uid selectedRoom svc ident encryptedMessage from now replyToId
       mediaData prev =
     (case decryptMessage br encryptedMessage from svc of
        Inl e \<Rightarrow> (prev @ [undecryptable ident from now], [])
      | Inr decryptedMessage \<Rightarrow>
          (case receiveMedia br mediaData from of
             Inl e \<Rightarrow> (prev @ [undecryptable ident from now], [])
           | Inr received \<Rightarrow>
               (prev @ [\<lparr>id' = ident, text' = decryptedMessage, sender = from, timestamp = now,
                          isDecrypted = True, editedAt = None, reactions = Some [],
                          media = received, replyTo = replyToId, isDeleted = None,
                          readBy = Some []\<rparr>],
                if socket \<and> truthy uid \<and> truthy selectedRoom
                then [message_read ident (the uid) (the selectedRoom)] else [])))"

definition handleMessageEdit ::
  "('pub, 'priv) browser \<Rightarrow> ('pub, 'priv) EncryptionService \<Rightarrow> jsstring \<Rightarrow> jsstring \<Rightarrow> jsstring \<Rightarrow>
     jsstring \<Rightarrow> Message list \<Rightarrow> Message list" where
  "handleMessageEdit br svc ident encryptedMessage from edited prev =
     (case decryptMessage br encryptedMessage from svc of
        Inl e \<Rightarrow> prev
      | Inr decryptedMessage \<Rightarrow>
          map (\<lambda>msg. if id' msg = ident
                      then msg\<lparr>text' := decryptedMessage, editedAt := Some edited\<rparr> else msg) prev)"

definition handleMessageDelete :: "jsstring \<Rightarrow> jsstring \<Rightarrow> Message list \<Rightarrow> Message list" where
  "handleMessageDelete ident from prev =
     map (\<lambda>msg. if id' msg = ident then msg\<lparr>isDeleted := Some True\<rparr> else msg) prev"

definition handleMessageReaction ::
  "jsstring \<Rightarrow> jsstring \<Rightarrow> jsstring \<Rightarrow> bool option \<Rightarrow> Message list \<Rightarrow> Message list" where
  "handleMessageReaction messageId uid emo remove prev =
     map (\<lambda>msg.
        if id' msg = messageId then
          (let updatedReactions = (case reactions msg of None \<Rightarrow> [] | Some rs \<Rightarrow> rs);
               updatedReactions' =
                 (if remove = Some True then
                    filter (\<lambda>r. \<not> (Reaction.userId r = uid \<and> emoji r = emo)) updatedReactions
                  else
                    (let exists = (\<exists>r \<in> set updatedReactions. Reaction.userId r = uid \<and> emoji r = emo)
                     in if \<not> exists
                        then updatedReactions @ [\<lparr>emoji = emo, Reaction.userId = uid\<rparr>]
                        else updatedReactions))
           in msg\<lparr>reactions := Some updatedReactions'\<rparr>)
        else msg) prev"

definition handleMessageRead ::
  "jsstring option \<Rightarrow> jsstring \<Rightarrow> jsstring \<Rightarrow> Message list \<Rightarrow> Message list" where
  "handleMessageRead uid messageId reader prev =
     (if Some reader = uid then prev
      else map (\<lambda>msg.
        if id' msg = messageId then
          (let readers = (case readBy msg of None \<Rightarrow> [] | Some rs \<Rightarrow> rs)
           in if reader \<notin> set readers then msg\<lparr>readBy := Some (readers @ [reader])\<rparr> else msg)
        else msg) prev)"

text \<open>\<open>handleUserTyping\<close> on \<open>{userId, roomId}\<close>; \<open>now\<close> is \<open>Date.now()\<close>.\<close>

definition handleUserTyping ::
  "jsstring option \<Rightarrow> jsstring option \<Rightarrow> int \<Rightarrow> jsstring \<Rightarrow> jsstring \<Rightarrow> TypingUser list \<Rightarrow>
     TypingUser list" where
  "handleUserTyping uid selectedRoom now typist roomId prev =
     (if Some typist = uid \<or> Some roomId \<noteq> selectedRoom then prev
      else filter (\<lambda>u. TypingUser.userId u \<noteq> typist) prev
             @ [\<lparr>TypingUser.userId = typist, timestamp = now\<rparr>])"

text \<open>The callback of \<open>setInterval(\<dots>, 1000)\<close>; \<open>now\<close> is \<open>Date.now()\<close>.\<close>

definition expireTyping :: "int \<Rightarrow> TypingUser list \<Rightarrow> TypingUser list" where
  "expireTyping now prev = filter (\<lambda>user. now - TypingUser.timestamp user < 3000) prev"

text \<open>
  The key exchange. \<open>generated\<close> is the pair \<open>generateKey\<close> would return if the service
  had none. The result is the service afterwards and what is emitted; a rejected
  promise ends the handler where it is.
\<close>

definition handleUserConnected ::
  "('pub, 'priv) browser \<Rightarrow> ('pub, 'priv) CryptoKeyPair \<Rightarrow> jsstring option \<Rightarrow>
     ('pub, 'priv) EncryptionService \<Rightarrow> jsstring \<Rightarrow> ('pub, 'priv) EncryptionService \<times> inbound list" where
  "handleUserConnected br generated uid svc connectedUserId =
     (if truthy uid then
        (case getPublicKeyAsString br generated svc of
           (Inl e, svc') \<Rightarrow> (svc', [])
         | (Inr myPublicKey, svc') \<Rightarrow>
             (svc', [exchange_keys (the uid) myPublicKey connectedUserId]))
      else (svc, []))"

definition handleKeyExchange ::
  "('pub, 'priv) browser \<Rightarrow> ('pub, 'priv) CryptoKeyPair \<Rightarrow> jsstring option \<Rightarrow>
     ('pub, 'priv) EncryptionService \<Rightarrow> jsstring \<Rightarrow> jsstring \<Rightarrow>
     ('pub, 'priv) EncryptionService \<times> inbound list" where
  "handleKeyExchange br generated uid svc peer peerKey =
     (case addPeerPublicKey br peer peerKey svc of
        Inl e \<Rightarrow> (svc, [])
      | Inr svc1 \<Rightarrow>
          (if truthy uid \<and> Some peer \<noteq> uid then
             (case getPublicKeyAsString br generated svc1 of
                (Inl e, svc2) \<Rightarrow> (svc2, [])
              | (Inr myPublicKey, svc2) \<Rightarrow> (svc2, [exchange_keys (the uid) myPublicKey peer]))
           else (svc1, [])))"

subsection \<open>The actions of the local user\<close>


text \<open>
  \<open>handleDeleteMessage\<close>: the list afterwards and the payloads \<open>{id, roomId}\<close> of the
  \<open>delete-message\<close> events emitted.
\<close>

definition handleDeleteMessage ::
  "bool \<Rightarrow> jsstring option \<Rightarrow> jsstring \<Rightarrow> Message list \<Rightarrow>
     Message list \<times> (jsstring \<times> jsstring option) list" where
  "handleDeleteMessage socket selectedRoom messageId prev =
     (map (\<lambda>msg. if id' msg = messageId then msg\<lparr>isDeleted := Some True\<rparr> else msg) prev,
      if socket then [(messageId, selectedRoom)] else [])"




definition handleReaction ::
  "bool \<Rightarrow> jsstring option \<Rightarrow> jsstring option \<Rightarrow> jsstring \<Rightarrow> jsstring \<Rightarrow> bool option \<Rightarrow>
     Message list \<Rightarrow> Message list \<times> inbound list" where
  "handleReaction socket uid selectedRoom messageId emo remove prev =
     (if \<not> truthy selectedRoom then (prev, [])
      else
        (map (\<lambda>msg.
           if id' msg = messageId then
             (let updatedReactions = (case reactions msg of None \<Rightarrow> [] | Some rs \<Rightarrow> rs);
                  updatedReactions' =
                    (if remove = Some True then
                       filter (\<lambda>r. \<not> (Some (Reaction.userId r) = uid \<and> emoji r = emo))
                         updatedReactions
                     else
                       (let existingReaction =
                              find (\<lambda>r. Some (Reaction.userId r) = uid \<and> emoji r = emo)
                                updatedReactions
                        in if existingReaction = None
                           then updatedReactions @ [\<lparr>emoji = emo, Reaction.userId = orUnknown uid\<rparr>]
                           else updatedReactions))
              in msg\<lparr>reactions := Some updatedReactions'\<rparr>)
           else msg) prev,
         if socket then [message_reaction messageId (the selectedRoom) emo remove] else []))"

text \<open>
  The messages shown for a room; \<open>popoutRooms\<close> are the \<open>roomId\<close>s of the popout
  windows.
\<close>

definition filteredMessages ::
  "jsstring option \<Rightarrow> jsstring option \<Rightarrow> jsstring option \<Rightarrow> jsstring list \<Rightarrow> jsstring \<Rightarrow>
     Message list \<Rightarrow> Message list" where
  "filteredMessages uid currentRoom selectedRoom popoutRooms roomId msgs =
     filter (\<lambda>msg. (Some (sender msg) = uid \<or> currentRoom = Some roomId) \<and>
                   (selectedRoom = Some roomId \<or> (\<exists>w \<in> set popoutRooms. w = roomId))) msgs"

subsection \<open>The session as a whole\<close>

text \<open>
  The state that decides which messages are shown and what their reactions are:
  \<open>socket\<close>, \<open>userId\<close> and \<open>currentRoom\<close> of the socket context, \<open>selectedRoom\<close>,
  the rooms of the popout windows and \<open>messages\<close> of the chat component.
\<close>

record Chat =
  socket :: bool
  userId :: "jsstring option"
  currentRoom :: "jsstring option"
  selectedRoom :: "jsstring option"
  popoutRooms :: "jsstring list"
  messages :: "Message list"

definition newChat :: Chat where
  "newChat = \<lparr>socket = False, userId = None, currentRoom = None, selectedRoom = None,
              popoutRooms = [], messages = []\<rparr>"

text \<open>
  What happens to it. The socket is created; it connects, and \<open>userId\<close> becomes its id
  (socket.io ids are not empty); the user selects a room (\<open>handleRoomSelect\<close>, and
  \<open>handleJoinRoom\<close> on a room name that is not blank), which calls \<open>joinRoom\<close>; a popout
  window is opened on the selected room or closed; a message is appended with no
  reactions (\<open>handleSendMessage\<close>, \<open>handleReceiveMessage\<close>); an edit, a deletion or a
  read receipt is applied; a relayed reaction arrives; the user clicks a reaction on a
  message shown in the window of a room.
\<close>

datatype chat_event =
    SocketCreated
  | SocketConnected jsstring
  | RoomSelected jsstring
  | PopoutOpened
  | PopoutClosed nat
  | MessageAppended Message
  | EditApplied jsstring jsstring jsstring
  | DeleteRelayed jsstring jsstring
  | DeleteClicked jsstring
  | ReadRelayed jsstring jsstring
  | ReactionRelayed jsstring jsstring jsstring "bool option"
  | ReactionClicked jsstring jsstring jsstring "bool option"

definition joinRoom :: "jsstring \<Rightarrow> Chat \<Rightarrow> Chat \<times> inbound list" where
  "joinRoom roomId st =
     (if socket st \<and> truthy (Chat.userId st)
      then (st\<lparr>currentRoom := Some roomId\<rparr>, [join_room roomId (the (Chat.userId st))])
      else (st, []))"

fun chat_step :: "Chat \<Rightarrow> chat_event \<Rightarrow> Chat" where
  "chat_step st SocketCreated = st\<lparr>socket := True\<rparr>"
| "chat_step st (SocketConnected sid) = (if sid = [] then st else st\<lparr>Chat.userId := Some sid\<rparr>)"
| "chat_step st (RoomSelected room) = (fst (joinRoom room st))\<lparr>selectedRoom := Some room\<rparr>"
| "chat_step st PopoutOpened =
     (if truthy (selectedRoom st) then st\<lparr>popoutRooms := popoutRooms st @ [the (selectedRoom st)]\<rparr>
      else st)"
| "chat_step st (PopoutClosed i) =
     st\<lparr>popoutRooms := take i (popoutRooms st) @ drop (Suc i) (popoutRooms st)\<rparr>"
| "chat_step st (MessageAppended msg) =
     (if reactions msg = Some [] then st\<lparr>messages := messages st @ [msg]\<rparr> else st)"
| "chat_step st (EditApplied ident txt edited) =
     st\<lparr>messages := map (\<lambda>msg. if id' msg = ident
                                  then msg\<lparr>text' := txt, editedAt := Some edited\<rparr> else msg)
                        (messages st)\<rparr>"
| "chat_step st (DeleteRelayed ident from) =
     st\<lparr>messages := handleMessageDelete ident from (messages st)\<rparr>"
| "chat_step st (DeleteClicked ident) =
     st\<lparr>messages := fst (handleDeleteMessage (socket st) (selectedRoom st) ident (messages st))\<rparr>"
| "chat_step st (ReadRelayed messageId reader) =
     st\<lparr>messages := handleMessageRead (Chat.userId st) messageId reader (messages st)\<rparr>"
| "chat_step st (ReactionRelayed messageId uid emo remove) =
     st\<lparr>messages := handleMessageReaction messageId uid emo remove (messages st)\<rparr>"
| "chat_step st (ReactionClicked roomId messageId emo remove) =
     (if \<exists>msg \<in> set (filteredMessages (Chat.userId st) (currentRoom st) (selectedRoom st)
                       (popoutRooms st) roomId (messages st)). id' msg = messageId
      then st\<lparr>messages := fst (handleReaction (socket st) (Chat.userId st) (selectedRoom st)
                                   messageId emo remove (messages st))\<rparr>
      else st)"

definition chat_run :: "chat_event list \<Rightarrow> Chat" where
  "chat_run evs = foldl chat_step newChat evs"

definition reactionsOf :: "Message \<Rightarrow> Reaction list" where
  "reactionsOf msg = (case reactions msg of None \<Rightarrow> [] | Some rs \<Rightarrow> rs)"

text \<open>
  What stays true of the session: \<open>userId\<close> is never the empty string, a current room
  is only set once there is a user id, and no message has the same reaction twice.
\<close>

definition chat_inv :: "Chat \<Rightarrow> bool" where
  "chat_inv st =
     (Chat.userId st \<noteq> Some [] \<and>
      (currentRoom st \<noteq> None \<longrightarrow> truthy (Chat.userId st)) \<and>
      (\<forall>msg \<in> set (messages st). distinct (reactionsOf msg)))"

subsection \<open>Typing indicators over time\<close>

text \<open>
  The typing state changes when a \<open>user-typing\<close> event \<open>{userId, roomId}\<close> is handled
  and when the interval fires; a trace lists these with the time (\<open>Date.now()\<close>, in
  milliseconds) at which each runs. \<open>typingAt uid room trace t\<close> is \<open>typingUsers\<close> once
  everything up to the time \<open>t\<close> has run.
\<close>

datatype typing_event = TypingSignal jsstring jsstring | Sweep

fun typing_step :: "jsstring option \<Rightarrow> jsstring option \<Rightarrow> TypingUser list \<Rightarrow> int \<times> typing_event \<Rightarrow>
    TypingUser list" where
  "typing_step uid room prev (now, TypingSignal typist roomId) =
     handleUserTyping uid room now typist roomId prev"
| "typing_step uid room prev (now, Sweep) = expireTyping now prev"

definition typingAt ::
  "jsstring option \<Rightarrow> jsstring option \<Rightarrow> (int \<times> typing_event) list \<Rightarrow> int \<Rightarrow> TypingUser list" where
  "typingAt uid room trace t = foldl (typing_step uid room) [] (filter (\<lambda>e. fst e \<le> t) trace)"

text \<open>
  \<open>setInterval(\<dots>, 1000)\<close> started at the time \<open>start\<close>: the interval fires at
  \<open>start + 1000\<close>, \<open>start + 2000\<close> and so on, and the trace has all of these up to
  the time \<open>horizon\<close>.
\<close>

definition sweepsEverySecond :: "int \<Rightarrow> int \<Rightarrow> (int \<times> typing_event) list \<Rightarrow> bool" where
  "sweepsEverySecond start horizon trace =
     (\<forall>k \<in> {1 .. nat ((horizon - start) div 1000)}. (start + 1000 * int k, Sweep) \<in> set trace)"

subsection \<open>Clients and relay together: the key exchange\<close>

text \<open>
  A network is the adapter of the relay, for every socket id the user id and the
  encryption service of the client behind it, and the events that clients have emitted
  and the relay has not handled yet. A client handles \<open>user-connected\<close> and
  \<open>exchange-keys\<close> with the handlers above; the other events do not touch the keys.
  A step of the network takes the oldest emitted event through its handler on the relay
  and each delivery through the handler of the client that receives it.
\<close>

type_synonym ('pub, 'priv) client = "jsstring option \<times> ('pub, 'priv) EncryptionService"

record ('pub, 'priv) network =
  adapterOf :: adapter
  clientOf :: "jsstring \<Rightarrow> ('pub, 'priv) client"
  wire :: "(jsstring \<times> inbound) list"

fun client_receive ::
  "('pub, 'priv) browser \<Rightarrow> ('pub, 'priv) CryptoKeyPair \<Rightarrow> ('pub, 'priv) client \<Rightarrow> outbound \<Rightarrow>
     ('pub, 'priv) client \<times> inbound list" where
  "client_receive br generated (uid, svc) (user_connected connectedUserId) =
     (case handleUserConnected br generated uid svc connectedUserId of
        (svc', emitted) \<Rightarrow> ((uid, svc'), emitted))"
| "client_receive br generated (uid, svc) (exchange_keys_relayed peer peerKey) =
     (case handleKeyExchange br generated uid svc peer peerKey of
        (svc', emitted) \<Rightarrow> ((uid, svc'), emitted))"
| "client_receive br generated (uid, svc) other = ((uid, svc), [])"

fun deliver ::
  "('pub, 'priv) browser \<Rightarrow> ('pub, 'priv) CryptoKeyPair \<Rightarrow> (jsstring \<times> outbound) list \<Rightarrow>
     (jsstring \<Rightarrow> ('pub, 'priv) client) \<Rightarrow> (jsstring \<Rightarrow> ('pub, 'priv) client) \<times> (jsstring \<times> inbound) list" where
  "deliver br generated [] clients = (clients, [])"
| "deliver br generated ((c, out) # ds) clients =
     (case client_receive br generated (clients c) out of
        (cl, emitted) \<Rightarrow>
          (case deliver br generated ds (clients(c := cl)) of
             (clients', later) \<Rightarrow> (clients', map (\<lambda>e. (c, e)) emitted @ later)))"

definition net_step ::
  "('pub, 'priv) browser \<Rightarrow> ('pub, 'priv) CryptoKeyPair \<Rightarrow> ('pub, 'priv) network \<Rightarrow> ('pub, 'priv) network" where
  "net_step br generated net =
     (case wire net of
        [] \<Rightarrow> net
      | (sid, e) # rest \<Rightarrow>
          (case on_event sid e (adapterOf net) of
             (rooms', ds) \<Rightarrow>
               (case deliver br generated ds (clientOf net) of
                  (clients', emitted) \<Rightarrow>
                    \<lparr>adapterOf = rooms', clientOf = clients', wire = rest @ emitted\<rparr>)))"

section \<open>Examples to run the service on\<close>

text \<open>
  Two services over the small primitives that have exchanged their keys (3 and 5), and a
  nonce of zeros.
\<close>

definition alice :: "(byte, byte) EncryptionService" where
  "alice = \<lparr>keyPair = Some \<lparr>publicKey = 3, privateKey = 3\<rparr>, peerPublicKeys = [js ''B'' \<mapsto> 5]\<rparr>"

definition bob :: "(byte, byte) EncryptionService" where
  "bob = \<lparr>keyPair = Some \<lparr>publicKey = 5, privateKey = 5\<rparr>, peerPublicKeys = [js ''A'' \<mapsto> 3]\<rparr>"

definition iv0 :: "byte list" where
  "iv0 = [0, 0, 0, 0, 0, 0, 0, 0, 0, 0, 0, 0]"

text \<open>
  Connections A, B and C in the room R, the same after C has also joined the room named
  by the socket id of A, connections A and B alone in R, and a message that A publishes
  to R.
\<close>

definition threeInRoom :: "server_input list" where
  "threeInRoom =
     [Connection (js ''A''), Connection (js ''B''), Connection (js ''C''),
      Event (js ''A'') (join_room (js ''R'') (js ''A'')),
      Event (js ''B'') (join_room (js ''R'') (js ''B'')),
      Event (js ''C'') (join_room (js ''R'') (js ''C''))]"

definition roomOfAJoined :: "server_input list" where
  "roomOfAJoined = threeInRoom @ [Event (js ''C'') (join_room (js ''A'') (js ''C''))]"

definition twoInRoom :: "server_input list" where
  "twoInRoom =
     [Connection (js ''A''), Connection (js ''B''),
      Event (js ''A'') (join_room (js ''R'') (js ''A'')),
      Event (js ''B'') (join_room (js ''R'') (js ''B''))]"

definition helloFromA :: inbound where
  "helloFromA = send_message (js ''m1'') (js ''R'') (js ''x'') (js ''A'') (js ''t'') None None"

text \<open>A message that B sent, and a session in which A and B react to it.\<close>

definition messageFromB :: Message where
  "messageFromB =
     \<lparr>id' = js ''m1'', text' = js ''hello'', sender = js ''B'', timestamp = js ''t'',
      isDecrypted = True, editedAt = None, reactions = Some [], media = None, replyTo = None,
      isDeleted = None, readBy = Some []\<rparr>"

definition reactionEvents :: "chat_event list" where
  "reactionEvents =
     [SocketCreated, SocketConnected (js ''A''), RoomSelected (js ''R''),
      MessageAppended messageFromB, ReactionClicked (js ''R'') (js ''m1'') (js ''+'') None,
      ReactionRelayed (js ''m1'') (js ''B'') (js ''+'') None]"

text \<open>A peer's signal at 500 ms, and an interval started at 0.\<close>

definition typingTrace :: "(int \<times> typing_event) list" where
  "typingTrace =
     [(500, TypingSignal (js ''B'') (js ''R'')), (1000, Sweep), (2000, Sweep), (3000, Sweep),
      (4000, Sweep)]"

text \<open>
  Two clients A and B, connected, each with its key pair; A is in the room R and B has
  just emitted \<open>join-room\<close> for it.
\<close>

definition twoClients :: "(byte, byte) network" where
  "twoClients =
     \<lparr>adapterOf = serve [Connection (js ''A''), Connection (js ''B''),
                         Event (js ''A'') (join_room (js ''R'') (js ''A''))],
      clientOf = (\<lambda>sid. (None, newEncryptionService))
        (js ''A'' := (Some (js ''A''),
                      generateKeyPair \<lparr>publicKey = 3, privateKey = 3\<rparr> newEncryptionService),
         js ''B'' := (Some (js ''B''),
                      generateKeyPair \<lparr>publicKey = 5, privateKey = 5\<rparr> newEncryptionService)),
      wire = [(js ''B'', join_room (js ''R'') (js ''B''))]\<rparr>"

text \<open>
  The two clients in the middle of the exchange: both connected under their ids with
  their key pairs, and one \<open>exchange-keys\<close> event on the way, from A to B or from B to A.
\<close>

definition exchanging :: "(byte, byte) network \<Rightarrow> bool" where
  "exchanging net =
     (adapterOf net (js ''A'') = [js ''A''] \<and> adapterOf net (js ''B'') = [js ''B''] \<and>
      fst (clientOf net (js ''A'')) = Some (js ''A'') \<and>
      fst (clientOf net (js ''B'')) = Some (js ''B'') \<and>
      keyPair (snd (clientOf net (js ''A''))) = Some \<lparr>publicKey = 3, privateKey = 3\<rparr> \<and>
      keyPair (snd (clientOf net (js ''B''))) = Some \<lparr>publicKey = 5, privateKey = 5\<rparr>)"

definition keyFromA :: "(jsstring \<times> inbound) list" where
  "keyFromA = [(js ''A'', exchange_keys (js ''A'') [3] (js ''B''))]"

definition keyFromB :: "(jsstring \<times> inbound) list" where
  "keyFromB = [(js ''B'', exchange_keys (js ''B'') [5] (js ''A''))]"

section \<open>The relay delivers to the others of the room, once each\<close>

lemma socket_join_distinct:
  "distinct (rooms r) \<Longrightarrow> distinct (socket_join sid room rooms r)"
  by (auto simp: socket_join_def)

lemma socket_leave_all_distinct:
  "distinct (rooms r) \<Longrightarrow> distinct (socket_leave_all sid rooms r)"
  by (simp add: socket_leave_all_def distinct_removeAll)

lemma on_event_distinct:
  "distinct (rooms r) \<Longrightarrow> distinct (fst (on_event sid e rooms) r)"
  by (cases e) (simp_all add: Let_def socket_join_distinct)

lemma server_step_distinct:
  "distinct (rooms r) \<Longrightarrow> distinct (server_step rooms i r)"
  by (cases i) (simp_all add: socket_join_distinct socket_leave_all_distinct on_event_distinct)

lemma foldl_server_step_distinct:
  "distinct (rooms r) \<Longrightarrow> distinct (foldl server_step rooms inputs r)"
  by (induction inputs arbitrary: rooms) (simp_all add: server_step_distinct)

lemma serve_distinct: "distinct (serve inputs r)"
  by (simp add: serve_def foldl_server_step_distinct no_rooms_def)

lemma on_event_keeps: "c \<in> set (rooms r) \<Longrightarrow> c \<in> set (fst (on_event sid e rooms) r)"
  by (cases e) (auto simp: Let_def socket_join_def)

lemma count_outside_distinct:
  "distinct xs \<Longrightarrow>
   length (filter (\<lambda>x. x = c) (filter (\<lambda>x. x \<notin> S) xs)) =
     (if c \<in> set xs \<and> c \<notin> S then 1 else 0)"
  by (induction xs) auto

lemma deliveries_to_emit:
  assumes "distinct (rooms room)"
  shows "deliveries_to c (socket_to_emit sid room e rooms) =
     (if c \<in> set (rooms room) \<and> c \<notin> set (rooms sid) then 1 else 0)"
proof -
  have "deliveries_to c (socket_to_emit sid room e rooms) =
        length (filter (\<lambda>x. x = c) (filter (\<lambda>x. x \<notin> set (rooms sid)) (rooms room)))"
    by (simp add: deliveries_to_def socket_to_emit_def filter_map comp_def)
  also have "\<dots> = (if c \<in> set (rooms room) \<and> c \<notin> set (rooms sid) then 1 else 0)"
    using assms by (rule count_outside_distinct)
  finally show ?thesis .
qed

lemma snd_on_event:
  "snd (on_event sid e rooms) =
     socket_to_emit sid (room_of e)
       (case e of
          join_room roomId uid \<Rightarrow> user_connected uid
        | send_message ident roomId encrypted from sent reply attached \<Rightarrow>
            receive_message ident encrypted from sent reply attached
        | edit_message ident roomId encrypted edited \<Rightarrow> message_edit ident encrypted sid edited
        | delete_message ident roomId \<Rightarrow> message_delete ident sid
        | message_reaction messageId roomId emo remove \<Rightarrow>
            message_reaction_relayed messageId sid emo remove
        | message_read messageId uid roomId \<Rightarrow> message_read_relayed messageId uid
        | user_typing uid roomId \<Rightarrow> user_typing_relayed uid roomId
        | exchange_keys uid key recipient \<Rightarrow> exchange_keys_relayed uid key)
       (fst (on_event sid e rooms))"
  by (cases e) (simp_all add: Let_def)

text \<open>
  C3, as amended. A connected socket \<open>sid\<close> publishes the event \<open>e\<close> after the server
  has gone through any inputs. Every connection joined to the room of \<open>e\<close> that is not
  in the room named by the id of \<open>sid\<close> gets exactly one delivery; \<open>sid\<close> gets none, nor
  does any other connection that has joined the room named by its id, nor a connection
  outside the room of \<open>e\<close>; and every delivery carries the event that the handler of
  \<open>e\<close> makes of it, with the fields of \<open>e\<close>.
\<close>

theorem relay_fanout:
  assumes "sid \<in> set (serve inputs sid)"
  shows
   "(c \<in> set (fst (on_event sid e (serve inputs)) (room_of e)) \<and>
     c \<notin> set (fst (on_event sid e (serve inputs)) sid) \<longrightarrow>
       deliveries_to c (snd (on_event sid e (serve inputs))) = 1) \<and>
    (c \<in> set (fst (on_event sid e (serve inputs)) sid) \<longrightarrow>
       deliveries_to c (snd (on_event sid e (serve inputs))) = 0) \<and>
    deliveries_to sid (snd (on_event sid e (serve inputs))) = 0 \<and>
    (c \<notin> set (fst (on_event sid e (serve inputs)) (room_of e)) \<longrightarrow>
       deliveries_to c (snd (on_event sid e (serve inputs))) = 0) \<and>
    (\<forall>d \<in> set (snd (on_event sid e (serve inputs))).
       snd d =
         (case e of
            join_room roomId uid \<Rightarrow> user_connected uid
          | send_message ident roomId encrypted from sent reply attached \<Rightarrow>
              receive_message ident encrypted from sent reply attached
          | edit_message ident roomId encrypted edited \<Rightarrow> message_edit ident encrypted sid edited
          | delete_message ident roomId \<Rightarrow> message_delete ident sid
          | message_reaction messageId roomId emo remove \<Rightarrow>
              message_reaction_relayed messageId sid emo remove
          | message_read messageId uid roomId \<Rightarrow> message_read_relayed messageId uid
          | user_typing uid roomId \<Rightarrow> user_typing_relayed uid roomId
          | exchange_keys uid key recipient \<Rightarrow> exchange_keys_relayed uid key))"
proof -
  have dist: "distinct (fst (on_event sid e (serve inputs)) (room_of e))"
    by (rule on_event_distinct) (rule serve_distinct)
  have own: "sid \<in> set (fst (on_event sid e (serve inputs)) sid)"
    using assms by (rule on_event_keeps)
  have same: "\<forall>d \<in> set (socket_to_emit sid room ev rooms). snd d = ev" for room ev
    and rooms :: adapter
    by (auto simp: socket_to_emit_def)
  show ?thesis
    using dist own same
    by (subst (1 2 3 4 5) snd_on_event) (simp add: deliveries_to_emit)
qed


text \<open>The example rooms.\<close>

lemmas relay_eval = serve_def no_rooms_def socket_join_def socket_to_emit_def deliveries_to_def
  threeInRoom_def roomOfAJoined_def twoInRoom_def helloFromA_def js_def Let_def

lemma threeInRoom_rooms:
  "serve threeInRoom (js ''R'') = [js ''A'', js ''B'', js ''C'']"
  "serve threeInRoom (js ''A'') = [js ''A'']"
  by (simp_all add: relay_eval)

lemma roomOfAJoined_rooms:
  "serve roomOfAJoined (js ''R'') = [js ''A'', js ''B'', js ''C'']"
  "serve roomOfAJoined (js ''A'') = [js ''A'', js ''C'']"
  by (simp_all add: relay_eval)

lemma twoInRoom_rooms:
  "serve twoInRoom (js ''R'') = [js ''A'', js ''B'']"
  "serve twoInRoom (js ''A'') = [js ''A'']"
  by (simp_all add: relay_eval)

text \<open>The theorem for A, B and C in the room R and a message that A publishes to it.\<close>

theorem relay_fanout_witness:
  "deliveries_to (js ''B'') (snd (on_event (js ''A'') helloFromA (serve threeInRoom))) = 1 \<and>
   deliveries_to (js ''C'') (snd (on_event (js ''A'') helloFromA (serve threeInRoom))) = 1 \<and>
   deliveries_to (js ''A'') (snd (on_event (js ''A'') helloFromA (serve threeInRoom))) = 0 \<and>
   snd (on_event (js ''A'') helloFromA (serve threeInRoom)) =
     [(js ''B'', receive_message (js ''m1'') (js ''x'') (js ''A'') (js ''t'') None None),
      (js ''C'', receive_message (js ''m1'') (js ''x'') (js ''A'') (js ''t'') None None)]"
proof -
  have a: "js ''A'' \<in> set (serve threeInRoom (js ''A''))"
    by (simp add: threeInRoom_rooms)
  have r: "fst (on_event (js ''A'') helloFromA (serve threeInRoom)) (room_of helloFromA) =
      [js ''A'', js ''B'', js ''C'']"
    "fst (on_event (js ''A'') helloFromA (serve threeInRoom)) (js ''A'') = [js ''A'']"
    by (simp_all add: helloFromA_def threeInRoom_rooms)
  have n: "js ''B'' \<noteq> js ''A''" "js ''C'' \<noteq> js ''A''"
    by (simp_all add: js_def)
  have c: "(case helloFromA of
            join_room roomId uid \<Rightarrow> user_connected uid
          | send_message ident roomId encrypted from sent reply attached \<Rightarrow>
              receive_message ident encrypted from sent reply attached
          | edit_message ident roomId encrypted edited \<Rightarrow> message_edit ident encrypted (js ''A'') edited
          | delete_message ident roomId \<Rightarrow> message_delete ident (js ''A'')
          | message_reaction messageId roomId emo remove \<Rightarrow>
              message_reaction_relayed messageId (js ''A'') emo remove
          | message_read messageId uid roomId \<Rightarrow> message_read_relayed messageId uid
          | user_typing uid roomId \<Rightarrow> user_typing_relayed uid roomId
          | exchange_keys uid key recipient \<Rightarrow> exchange_keys_relayed uid key) =
        receive_message (js ''m1'') (js ''x'') (js ''A'') (js ''t'') None None"
    by (simp add: helloFromA_def)
  have l: "snd (on_event (js ''A'') helloFromA (serve threeInRoom)) =
     [(js ''B'', receive_message (js ''m1'') (js ''x'') (js ''A'') (js ''t'') None None),
      (js ''C'', receive_message (js ''m1'') (js ''x'') (js ''A'') (js ''t'') None None)]"
    using n by (simp add: helloFromA_def threeInRoom_rooms socket_to_emit_def)
  have "deliveries_to (js ''B'') (snd (on_event (js ''A'') helloFromA (serve threeInRoom))) = 1 \<and>
      deliveries_to (js ''C'') (snd (on_event (js ''A'') helloFromA (serve threeInRoom))) = 1 \<and>
      deliveries_to (js ''A'') (snd (on_event (js ''A'') helloFromA (serve threeInRoom))) = 0"
    using relay_fanout [OF a, of "js ''B''" helloFromA] relay_fanout [OF a, of "js ''C''" helloFromA]
      n
    by (simp add: r c)
  then show ?thesis
    using l by simp
qed

text \<open>
  C3 as stated fails: C is joined to R and is not A, and once C has also joined the room
  named by the socket id of A, the message that A publishes to R is delivered to B alone.
\<close>

theorem relay_fanout_counterexample:
  "js ''C'' \<in> set (fst (on_event (js ''A'') helloFromA (serve roomOfAJoined)) (room_of helloFromA)) \<and>
   js ''C'' \<noteq> js ''A'' \<and>
   deliveries_to (js ''C'') (snd (on_event (js ''A'') helloFromA (serve roomOfAJoined))) = 0 \<and>
   snd (on_event (js ''A'') helloFromA (serve roomOfAJoined)) =
     [(js ''B'', receive_message (js ''m1'') (js ''x'') (js ''A'') (js ''t'') None None)]"
proof -
  have n: "js ''C'' \<noteq> js ''A''" "js ''B'' \<noteq> js ''A''" "js ''B'' \<noteq> js ''C''"
    by (simp_all add: js_def)
  show ?thesis
    using n by (simp add: helloFromA_def roomOfAJoined_rooms socket_to_emit_def deliveries_to_def)
qed

text \<open>
  C10. Whatever a connection \<open>sid\<close> sends as a \<open>message-reaction\<close>, every delivery of
  it names \<open>sid\<close> as the user; a \<open>message-read\<close> is delivered with the user id that the
  client wrote into it.
\<close>

theorem reaction_user_is_socket_read_user_is_claimed:
  "(\<forall>d \<in> set (snd (on_event sid (message_reaction messageId roomId emo remove) rooms)).
      snd d = message_reaction_relayed messageId sid emo remove) \<and>
   (\<forall>d \<in> set (snd (on_event sid (message_read messageId claimed roomId) rooms)).
      snd d = message_read_relayed messageId claimed)"
  by (auto simp: socket_to_emit_def)

text \<open>The theorem for A and B in the room R.\<close>

theorem reaction_user_is_socket_read_user_is_claimed_witness:
  "snd (on_event (js ''A'') (message_reaction (js ''m1'') (js ''R'') (js ''+'') None)
      (serve twoInRoom)) =
     [(js ''B'', message_reaction_relayed (js ''m1'') (js ''A'') (js ''+'') None)] \<and>
   snd (on_event (js ''A'') (message_read (js ''m1'') (js ''Z'') (js ''R'')) (serve twoInRoom)) =
     [(js ''B'', message_read_relayed (js ''m1'') (js ''Z''))]"
proof -
  have n: "js ''B'' \<noteq> js ''A''"
    by (simp add: js_def)
  have e1: "map fst (snd (on_event (js ''A'') (message_reaction (js ''m1'') (js ''R'') (js ''+'') None)
      (serve twoInRoom))) = [js ''B'']"
    using n by (simp add: socket_to_emit_def twoInRoom_rooms)
  have e2: "map fst (snd (on_event (js ''A'') (message_read (js ''m1'') (js ''Z'') (js ''R''))
      (serve twoInRoom))) = [js ''B'']"
    using n by (simp add: socket_to_emit_def twoInRoom_rooms)
  show ?thesis
    using e1 e2 reaction_user_is_socket_read_user_is_claimed
      [of "js ''A''" "js ''m1''" "js ''R''" "js ''+''" None "serve twoInRoom" "js ''Z''"]
    by (auto simp: map_eq_Cons_conv)
qed

section \<open>TextDecoder inverts TextEncoder on well-formed strings\<close>

lemma mod_block: "y < m \<Longrightarrow> (m * k + y) mod m = (y::nat)"
  by simp

lemma cont_mod: "(0x80 + y mod 0x40) mod 0x40 = (y::nat) mod 0x40"
  using mod_block [of "y mod 64" 64 2] by simp

lemma cont_last:
  assumes "lo \<le> 0x80 + y mod 0x40" "0x80 + y mod 0x40 \<le> hi"
  shows "utf8_step \<lparr>codePoint = c, bytesNeeded = 1, lowerBoundary = lo, upperBoundary = hi\<rparr>
           (0x80 + y mod 0x40) = (utf8_start, [c * 0x40 + y mod 0x40])"
  using assms by (simp add: utf8_step_def cont_mod Let_def)

lemma cont_mid2:
  assumes "lo \<le> 0x80 + y mod 0x40" "0x80 + y mod 0x40 \<le> hi"
  shows "utf8_step \<lparr>codePoint = c, bytesNeeded = 2, lowerBoundary = lo, upperBoundary = hi\<rparr>
           (0x80 + y mod 0x40) =
         (\<lparr>codePoint = c * 0x40 + y mod 0x40, bytesNeeded = 1,
            lowerBoundary = 0x80, upperBoundary = 0xBF\<rparr>, [])"
  using assms by (simp add: utf8_step_def cont_mod Let_def)

lemma cont_mid3:
  assumes "lo \<le> 0x80 + y mod 0x40" "0x80 + y mod 0x40 \<le> hi"
  shows "utf8_step \<lparr>codePoint = c, bytesNeeded = 3, lowerBoundary = lo, upperBoundary = hi\<rparr>
           (0x80 + y mod 0x40) =
         (\<lparr>codePoint = c * 0x40 + y mod 0x40, bytesNeeded = 2,
            lowerBoundary = 0x80, upperBoundary = 0xBF\<rparr>, [])"
  using assms by (simp add: utf8_step_def cont_mod Let_def)

lemma cont_bounds: "0x80 \<le> 0x80 + (y::nat) mod 0x40" "0x80 + (y::nat) mod 0x40 \<le> 0xBF"
  by simp_all

lemma lead2: "x < 32 \<Longrightarrow> (192 + x) mod 32 = (x::nat)"
  using mod_block [of x 32 6] by simp

lemma lead3: "x < 16 \<Longrightarrow> (224 + x) mod 16 = (x::nat)"
  using mod_block [of x 16 14] by simp

lemma lead4: "x < 8 \<Longrightarrow> (240 + x) mod 8 = (x::nat)"
  using mod_block [of x 8 30] by simp

lemma digits2: "cp div 0x40 * 0x40 + cp mod 0x40 = (cp::nat)"
  by (rule div_mult_mod_eq)

lemma digits3: "(cp div 0x1000 * 0x40 + cp div 0x40 mod 0x40) * 0x40 + cp mod 0x40 = (cp::nat)"
proof -
  have "cp div 0x1000 = cp div 0x40 div 0x40"
    by (simp add: div_mult2_eq)
  then show ?thesis
    by (simp only: div_mult_mod_eq)
qed

lemma digits4:
  "((cp div 0x40000 * 0x40 + cp div 0x1000 mod 0x40) * 0x40 + cp div 0x40 mod 0x40) * 0x40
     + cp mod 0x40 = (cp::nat)"
proof -
  have "cp div 0x40000 = cp div 0x1000 div 0x40"
    by (simp add: div_mult2_eq)
  then have "cp div 0x40000 * 0x40 + cp div 0x1000 mod 0x40 = cp div 0x1000"
    by (simp only: div_mult_mod_eq)
  then show ?thesis
    by (simp only: digits3)
qed

lemma utf8_decode_1:
  assumes "cp < 0x80"
  shows "utf8_decode utf8_start (utf8Bytes cp @ rest) = cp # utf8_decode utf8_start rest"
  using assms by (simp add: utf8Bytes_def utf8_step_def utf8_lead_def utf8_start_def)

lemma utf8_decode_2:
  assumes "0x80 \<le> cp" "cp < 0x800"
  shows "utf8_decode utf8_start (utf8Bytes cp @ rest) = cp # utf8_decode utf8_start rest"
proof -
  let ?s1 = "\<lparr>codePoint = cp div 0x40, bytesNeeded = 1, lowerBoundary = 0x80, upperBoundary = 0xBF\<rparr>"
  have x: "2 \<le> cp div 0x40" "cp div 0x40 < 32"
    using assms by simp_all
  have l: "utf8_step utf8_start (0xC0 + cp div 0x40) = (?s1, [])"
    using x by (simp add: utf8_step_def utf8_start_def utf8_lead_def lead2)
  have "utf8_step ?s1 (0x80 + cp mod 0x40) = (utf8_start, [cp div 0x40 * 0x40 + cp mod 0x40])"
    by (rule cont_last) (rule cont_bounds)+
  then have c: "utf8_step ?s1 (0x80 + cp mod 0x40) = (utf8_start, [cp])"
    by (simp only: digits2)
  have "utf8Bytes cp = [0xC0 + cp div 0x40, 0x80 + cp mod 0x40]"
    using assms by (simp add: utf8Bytes_def)
  then show ?thesis
    by (simp only: utf8_decode.simps append_Cons append_Nil l c prod.case)
qed

lemma second_of_3:
  fixes cp :: nat
  assumes "0x800 \<le> cp" "cp < 0x10000" "\<not> (0xD800 \<le> cp \<and> cp \<le> 0xDFFF)"
  shows "(if cp div 0x1000 = 0 then 0xA0 else 0x80) \<le> 0x80 + cp div 0x40 mod 0x40"
    and "0x80 + cp div 0x40 mod 0x40 \<le> (if cp div 0x1000 = 13 then 0x9F else 0xBF)"
proof -
  show "(if cp div 0x1000 = 0 then 0xA0 else 0x80) \<le> 0x80 + cp div 0x40 mod 0x40"
  proof (cases "cp div 0x1000 = 0")
    case True
    have "cp div 0x40 div 0x40 = cp div 0x1000"
      by (simp add: div_mult2_eq)
    then have "cp div 0x40 < 0x40"
      using True by simp
    moreover have "0x800 div 0x40 \<le> cp div 0x40"
      using assms(1) by (rule div_le_mono)
    ultimately show ?thesis
      using True by simp
  next
    case False
    then show ?thesis by simp
  qed
  show "0x80 + cp div 0x40 mod 0x40 \<le> (if cp div 0x1000 = 13 then 0x9F else 0xBF)"
  proof (cases "cp div 0x1000 = 13")
    case True
    have "cp = 13 * 0x1000 + cp mod 0x1000"
      using True div_mult_mod_eq [where a = cp and b = "0x1000"] by simp
    moreover have "cp mod 0x1000 < 0x1000"
      by simp
    ultimately have "0xD000 \<le> cp" "cp < 0xE000"
      by linarith+
    then have r: "0xD000 \<le> cp" "cp < 0xD800"
      using assms(3) by simp_all
    define z where "z = cp div 0x40 - 832"
    have z: "cp div 0x40 = 64 * 13 + z" "z < 32"
      using r by (simp_all add: z_def)
    have "cp div 0x40 mod 0x40 = z"
      unfolding z(1) using z(2) by (simp only: mod_mult_self4) simp
    then show ?thesis
      using True z(2) by simp
  next
    case False
    then show ?thesis by simp
  qed
qed

lemma utf8_decode_3:
  assumes "0x800 \<le> cp" "cp < 0x10000" "\<not> (0xD800 \<le> cp \<and> cp \<le> 0xDFFF)"
  shows "utf8_decode utf8_start (utf8Bytes cp @ rest) = cp # utf8_decode utf8_start rest"
proof -
  let ?s1 = "\<lparr>codePoint = cp div 0x1000, bytesNeeded = 2,
      lowerBoundary = (if cp div 0x1000 = 0 then 0xA0 else 0x80),
      upperBoundary = (if cp div 0x1000 = 13 then 0x9F else 0xBF)\<rparr>"
  let ?s2 = "\<lparr>codePoint = cp div 0x1000 * 0x40 + cp div 0x40 mod 0x40, bytesNeeded = 1,
      lowerBoundary = 0x80, upperBoundary = 0xBF\<rparr>"
  have x: "cp div 0x1000 < 16"
    using assms by simp
  have l: "utf8_step utf8_start (0xE0 + cp div 0x1000) = (?s1, [])"
    using x by (simp add: utf8_step_def utf8_start_def utf8_lead_def lead3)
  have c1: "utf8_step ?s1 (0x80 + cp div 0x40 mod 0x40) = (?s2, [])"
    by (rule cont_mid2) (rule second_of_3 [OF assms])+
  have "utf8_step ?s2 (0x80 + cp mod 0x40) =
      (utf8_start, [(cp div 0x1000 * 0x40 + cp div 0x40 mod 0x40) * 0x40 + cp mod 0x40])"
    by (rule cont_last) (rule cont_bounds)+
  then have c2: "utf8_step ?s2 (0x80 + cp mod 0x40) = (utf8_start, [cp])"
    by (simp only: digits3)
  have "utf8Bytes cp = [0xE0 + cp div 0x1000, 0x80 + cp div 0x40 mod 0x40, 0x80 + cp mod 0x40]"
    using assms by (simp add: utf8Bytes_def)
  then show ?thesis
    by (simp only: utf8_decode.simps append_Cons append_Nil l c1 c2 prod.case)
qed

lemma second_of_4:
  fixes cp :: nat
  assumes "0x10000 \<le> cp" "cp < 0x110000"
  shows "(if cp div 0x40000 = 0 then 0x90 else 0x80) \<le> 0x80 + cp div 0x1000 mod 0x40"
    and "0x80 + cp div 0x1000 mod 0x40 \<le> (if cp div 0x40000 = 4 then 0x8F else 0xBF)"
proof -
  show "(if cp div 0x40000 = 0 then 0x90 else 0x80) \<le> 0x80 + cp div 0x1000 mod 0x40"
  proof (cases "cp div 0x40000 = 0")
    case True
    have "cp div 0x1000 div 0x40 = cp div 0x40000"
      by (simp add: div_mult2_eq)
    then have "cp div 0x1000 < 0x40"
      using True by simp
    moreover have "0x10000 div 0x1000 \<le> cp div 0x1000"
      using assms(1) by (rule div_le_mono)
    ultimately show ?thesis
      using True by simp
  next
    case False
    then show ?thesis by simp
  qed
  show "0x80 + cp div 0x1000 mod 0x40 \<le> (if cp div 0x40000 = 4 then 0x8F else 0xBF)"
  proof (cases "cp div 0x40000 = 4")
    case True
    define z where "z = cp div 0x1000 - 256"
    have z: "cp div 0x1000 = 64 * 4 + z" "z < 16"
      using assms True by (simp_all add: z_def)
    have "cp div 0x1000 mod 0x40 = z"
      unfolding z(1) using z(2) by (simp only: mod_mult_self4) simp
    then show ?thesis
      using True z(2) by simp
  next
    case False
    then show ?thesis by simp
  qed
qed

lemma utf8_decode_4:
  assumes "0x10000 \<le> cp" "cp < 0x110000"
  shows "utf8_decode utf8_start (utf8Bytes cp @ rest) = cp # utf8_decode utf8_start rest"
proof -
  let ?s1 = "\<lparr>codePoint = cp div 0x40000, bytesNeeded = 3,
      lowerBoundary = (if cp div 0x40000 = 0 then 0x90 else 0x80),
      upperBoundary = (if cp div 0x40000 = 4 then 0x8F else 0xBF)\<rparr>"
  let ?s2 = "\<lparr>codePoint = cp div 0x40000 * 0x40 + cp div 0x1000 mod 0x40, bytesNeeded = 2,
      lowerBoundary = 0x80, upperBoundary = 0xBF\<rparr>"
  let ?s3 = "\<lparr>codePoint = (cp div 0x40000 * 0x40 + cp div 0x1000 mod 0x40) * 0x40
                              + cp div 0x40 mod 0x40,
      bytesNeeded = 1, lowerBoundary = 0x80, upperBoundary = 0xBF\<rparr>"
  have x: "cp div 0x40000 \<le> 4"
    using assms by simp
  have l: "utf8_step utf8_start (0xF0 + cp div 0x40000) = (?s1, [])"
    using x by (simp add: utf8_step_def utf8_start_def utf8_lead_def lead4)
  have c1: "utf8_step ?s1 (0x80 + cp div 0x1000 mod 0x40) = (?s2, [])"
    by (rule cont_mid3) (rule second_of_4 [OF assms])+
  have c2: "utf8_step ?s2 (0x80 + cp div 0x40 mod 0x40) = (?s3, [])"
    by (rule cont_mid2) (rule cont_bounds)+
  have "utf8_step ?s3 (0x80 + cp mod 0x40) =
      (utf8_start, [((cp div 0x40000 * 0x40 + cp div 0x1000 mod 0x40) * 0x40
                       + cp div 0x40 mod 0x40) * 0x40 + cp mod 0x40])"
    by (rule cont_last) (rule cont_bounds)+
  then have c3: "utf8_step ?s3 (0x80 + cp mod 0x40) = (utf8_start, [cp])"
    by (simp only: digits4)
  have "utf8Bytes cp = [0xF0 + cp div 0x40000, 0x80 + cp div 0x1000 mod 0x40,
      0x80 + cp div 0x40 mod 0x40, 0x80 + cp mod 0x40]"
    using assms by (simp add: utf8Bytes_def)
  then show ?thesis
    by (simp only: utf8_decode.simps append_Cons append_Nil l c1 c2 c3 prod.case)
qed

lemma utf8_decode_scalar:
  assumes "scalarValue cp"
  shows "utf8_decode utf8_start (utf8Bytes cp @ rest) = cp # utf8_decode utf8_start rest"
proof -
  consider "cp < 0x80" | "0x80 \<le> cp" "cp < 0x800" | "0x800 \<le> cp" "cp < 0x10000"
    | "0x10000 \<le> cp"
    by linarith
  then show ?thesis
  proof cases
    case 1 then show ?thesis by (rule utf8_decode_1)
  next
    case 2 then show ?thesis by (rule utf8_decode_2)
  next
    case 3 then show ?thesis using assms by (intro utf8_decode_3) (simp_all add: scalarValue_def)
  next
    case 4 then show ?thesis using assms by (intro utf8_decode_4) (simp_all add: scalarValue_def)
  qed
qed

lemma utf8_decode_concat:
  "list_all scalarValue cps \<Longrightarrow> utf8_decode utf8_start (concat (map utf8Bytes cps)) = cps"
  by (induction cps) (simp_all add: utf8_decode_scalar utf8_start_def [THEN arg_cong, of bytesNeeded])


lemma lead_nat: "isLeadSurrogate c \<longleftrightarrow> 0xD800 \<le> unat c \<and> unat c \<le> 0xDBFF"
  by (simp add: isLeadSurrogate_def word_le_nat_alt)

lemma trail_nat: "isTrailSurrogate c \<longleftrightarrow> 0xDC00 \<le> unat c \<and> unat c \<le> 0xDFFF"
  by (simp add: isTrailSurrogate_def word_le_nat_alt)

lemma unat_unit_bound: "unat (c :: 16 word) < 0x10000"
  using unsigned_less [of c, where 'a = nat] by simp

lemma pair_scalar:
  assumes "isLeadSurrogate c" "isTrailSurrogate d"
  shows "scalarValue (0x10000 + (unat c - 0xD800) * 0x400 + (unat d - 0xDC00))"
proof -
  define x where "x = unat c - 0xD800"
  define y where "y = unat d - 0xDC00"
  have "x < 0x400" "y < 0x400"
    using assms by (auto simp: x_def y_def lead_nat trail_nat)
  then have "0x10000 \<le> 0x10000 + x * 0x400 + y" "0x10000 + x * 0x400 + y < 0x110000"
    by linarith+
  then show ?thesis
    by (simp add: scalarValue_def x_def y_def)
qed

lemma single_scalar:
  "scalarValue (if isLeadSurrogate c \<or> isTrailSurrogate c then 0xFFFD else unat c)"
  using unat_unit_bound [of c] by (auto simp: scalarValue_def lead_nat trail_nat)

lemma toScalarValues_scalar: "list_all scalarValue (toScalarValues s)"
  by (induction s rule: toScalarValues.induct) (simp_all add: pair_scalar single_scalar)

lemma utf16Units_pair:
  assumes "isLeadSurrogate c" "isTrailSurrogate d"
  shows "utf16Units (0x10000 + (unat c - 0xD800) * 0x400 + (unat d - 0xDC00)) = [c, d]"
proof -
  define x where "x = unat c - 0xD800"
  define y where "y = unat d - 0xDC00"
  have xy: "y < 0x400" "unat c = 0xD800 + x" "unat d = 0xDC00 + y"
    using assms by (auto simp: x_def y_def lead_nat trail_nat)
  have dm: "(x * 0x400 + y) div 0x400 = x" "(x * 0x400 + y) mod 0x400 = y"
    using xy(1) by simp_all
  have "utf16Units (0x10000 + x * 0x400 + y) =
      [of_nat (0xD800 + (x * 0x400 + y) div 0x400), of_nat (0xDC00 + (x * 0x400 + y) mod 0x400)]"
    by (simp add: utf16Units_def)
  also have "\<dots> = [of_nat (unat c), of_nat (unat d)]"
    by (simp only: dm xy)
  finally show ?thesis
    by (simp add: x_def y_def)
qed

lemma utf16Units_single: "utf16Units (unat (c :: 16 word)) = [c]"
  using unat_unit_bound [of c] by (simp add: utf16Units_def)

lemma utf16_roundtrip: "wellFormed s \<Longrightarrow> concat (map utf16Units (toScalarValues s)) = s"
  by (induction s rule: toScalarValues.induct)
     (auto simp: utf16Units_pair utf16Units_single split: if_splits)

lemma bom_nat: "c = 0xFEFF \<longleftrightarrow> unat c = 0xFEFF" for c :: "16 word"
  by (simp add: word_unat_eq_iff)

lemma dropBOM_toScalarValues:
  assumes "s = [] \<or> hd s \<noteq> 0xFEFF"
  shows "dropBOM (toScalarValues s) = toScalarValues s"
proof (cases s rule: toScalarValues.cases)
  case 1
  then show ?thesis by simp
next
  case (2 c)
  then have "unat c \<noteq> 0xFEFF"
    using assms by (simp add: bom_nat)
  then show ?thesis
    using 2 by simp
next
  case (3 c d cs)
  then have "unat c \<noteq> 0xFEFF"
    using assms by (simp add: bom_nat)
  then show ?thesis
    using 3 by (simp add: lead_nat trail_nat)
qed

lemma utf8Bytes_byte:
  assumes "scalarValue cp"
  shows "\<forall>b \<in> set (utf8Bytes cp). b < 256"
proof -
  have c: "cp mod 0x40 < 0x40" "cp div 0x40 mod 0x40 < 0x40" "cp div 0x1000 mod 0x40 < 0x40"
    by simp_all
  have "cp < 0x10 * 0x40000"
    using assms by (simp add: scalarValue_def)
  then have d: "cp div 0x40000 < 0x10"
    by (rule less_mult_imp_div_less)
  have "cp < 0x800 \<Longrightarrow> cp div 0x40 < 0x20" "cp < 0x10000 \<Longrightarrow> cp div 0x1000 < 0x10"
    by simp_all
  then show ?thesis
    using c d by (auto simp: utf8Bytes_def)
qed

lemma unat_of_nat_bytes:
  "\<forall>b \<in> set bs. b < 256 \<Longrightarrow> map unat (map of_nat bs :: byte list) = bs"
  by (induction bs) (simp_all add: unat_of_nat)

lemma encoded_bytes:
  "map unat (TextEncoder_encode s) = concat (map utf8Bytes (toScalarValues s))"
proof -
  have "\<forall>b \<in> set (concat (map utf8Bytes (toScalarValues s))). b < 256"
    using toScalarValues_scalar [of s] utf8Bytes_byte by (auto simp: list_all_iff)
  then show ?thesis
    unfolding TextEncoder_encode_def by (rule unat_of_nat_bytes)
qed

lemma decode_encode:
  "TextDecoder_decode (TextEncoder_encode s) = concat (map utf16Units (dropBOM (toScalarValues s)))"
  by (simp add: TextDecoder_decode_def encoded_bytes utf8_decode_concat toScalarValues_scalar)

lemma TextDecoder_TextEncoder:
  assumes "wellFormed s" "s = [] \<or> hd s \<noteq> 0xFEFF"
  shows "TextDecoder_decode (TextEncoder_encode s) = s"
  using assms by (simp add: decode_encode dropBOM_toScalarValues utf16_roundtrip)

section \<open>The encryption service\<close>

lemma ucast_byte_roundtrip: "(ucast (ucast (b :: byte) :: 16 word) :: byte) = b"
  by (rule ucast_up_ucast_id) (simp add: is_up)

lemma ucast_bytes_roundtrip: "map ucast (map ucast (bs :: byte list) :: jsstring) = bs"
  by (induction bs) (simp_all add: ucast_byte_roundtrip)

lemma uint_ucast_byte: "uint (ucast (b :: byte) :: 16 word) = uint b"
  by (rule uint_up_ucast) (simp add: is_up)

lemma ucast_byte_latin1: "(ucast (b :: byte) :: 16 word) \<le> 0xFF"
proof -
  have "uint b < 2 ^ LENGTH(8)"
    by (rule unsigned_less)
  then have "uint (ucast b :: 16 word) \<le> uint (0xFF :: 16 word)"
    by (simp add: uint_ucast_byte)
  then show ?thesis
    by (simp only: word_le_def)
qed

lemma ucast_bytes_latin1: "\<forall>c \<in> set (map ucast (bs :: byte list) :: jsstring). c \<le> 0xFF"
  by (simp add: ucast_byte_latin1)

lemma base64_roundtrip:
  assumes "lawful br"
  shows "\<exists>e. arrayBufferToBase64 br buffer = Inr e \<and> base64ToArrayBuffer br e = Inr buffer"
proof -
  obtain e where e: "btoa br (map ucast buffer) = Some e" "atob br e = Some (map ucast buffer)"
    using assms ucast_bytes_latin1 [of buffer] unfolding lawful_def by blast
  have "map ucast (map ucast buffer :: jsstring) = buffer"
    by (rule ucast_bytes_roundtrip)
  then show ?thesis
    using e by (simp add: arrayBufferToBase64_def base64ToArrayBuffer_def)
qed

lemma encryptMessage_envelope:
  assumes "lawful br" "keyPair svc = Some kp" "peerPublicKeys svc recipientId = Some k"
  shows "\<exists>env. encryptMessage br iv message recipientId svc = Inr env \<and>
           base64ToArrayBuffer br env =
             Inr (iv @ aesGcmEncrypt br (deriveBits br k (privateKey kp)) iv (TextEncoder_encode message))"
  using assms(2,3) base64_roundtrip [OF assms(1)] by (simp add: encryptMessage_def Let_def)

lemma decrypt_encrypt:
  assumes "lawful br" "isKeyPair br kpA" "isKeyPair br kpB"
    and "keyPair a = Some kpA" "peerPublicKeys a idB = Some (publicKey kpB)"
    and "keyPair b = Some kpB" "peerPublicKeys b idA = Some (publicKey kpA)"
    and "length iv = 12"
  shows "\<exists>env. encryptMessage br iv message idB a = Inr env \<and>
           decryptMessage br env idA b = Inr (TextDecoder_decode (TextEncoder_encode message))"
proof -
  let ?secret = "deriveBits br (publicKey kpB) (privateKey kpA)"
  obtain env where env: "encryptMessage br iv message idB a = Inr env"
    "base64ToArrayBuffer br env = Inr (iv @ aesGcmEncrypt br ?secret iv (TextEncoder_encode message))"
    using encryptMessage_envelope [OF assms(1,4,5)] by blast
  have same: "deriveBits br (publicKey kpA) (privateKey kpB) = ?secret"
    using assms(1,2,3) unfolding lawful_def by blast
  have dec: "aesGcmDecrypt br ?secret iv (aesGcmEncrypt br ?secret iv (TextEncoder_encode message)) =
      Some (TextEncoder_encode message)"
    using assms(1) unfolding lawful_def by blast
  have "decryptMessage br env idA b = Inr (TextDecoder_decode (TextEncoder_encode message))"
    using assms(6,7,8) by (simp add: decryptMessage_def env(2) same dec)
  then show ?thesis
    using env(1) by blast
qed

text \<open>
  The exchange itself: what \<open>getPublicKeyAsString\<close> of one service returns,
  \<open>addPeerPublicKey\<close> of the other accepts and stores as the key of that peer.
\<close>

lemma exchange_stores_key:
  assumes "lawful br" "keyPair b = Some kpB"
  shows "\<exists>s a'. getPublicKeyAsString br generated b = (Inr s, b) \<and>
           addPeerPublicKey br idB s a = Inr a' \<and>
           peerPublicKeys a' idB = Some (publicKey kpB) \<and> keyPair a' = keyPair a"
proof -
  obtain s where s: "arrayBufferToBase64 br (exportKey br (publicKey kpB)) = Inr s"
    "base64ToArrayBuffer br s = Inr (exportKey br (publicKey kpB))"
    using base64_roundtrip [OF assms(1)] by blast
  have i: "importKey br (exportKey br (publicKey kpB)) = Some (publicKey kpB)"
    using assms(1) unfolding lawful_def by blast
  have "getPublicKeyAsString br generated b = (Inr s, b)"
    using assms(2) s(1) by (simp add: getPublicKeyAsString_def)
  moreover have "addPeerPublicKey br idB s a =
      Inr (a\<lparr>peerPublicKeys := (peerPublicKeys a)(idB \<mapsto> publicKey kpB)\<rparr>)"
    by (simp add: addPeerPublicKey_def s(2) i)
  ultimately show ?thesis
    by simp
qed

text \<open>
  C1, as amended. A and B hold key pairs of the browser, A has stored B's public key under
  B's identity and B has stored A's under A's. For every plaintext without unpaired
  surrogates that does not begin with U+FEFF, and every 12-byte nonce drawn, A's
  \<open>encryptMessage\<close> returns an envelope and B's \<open>decryptMessage\<close> of it returns the
  plaintext.
\<close>

theorem decrypt_inverts_encrypt:
  assumes "lawful br" "isKeyPair br kpA" "isKeyPair br kpB"
    and "keyPair a = Some kpA" "peerPublicKeys a idB = Some (publicKey kpB)"
    and "keyPair b = Some kpB" "peerPublicKeys b idA = Some (publicKey kpA)"
    and "length iv = 12"
    and "wellFormed message" "message = [] \<or> hd message \<noteq> 0xFEFF"
  shows "\<exists>env. encryptMessage br iv message idB a = Inr env \<and>
           decryptMessage br env idA b = Inr message"
  using decrypt_encrypt [OF assms(1-8), where message = message]
    TextDecoder_TextEncoder [OF assms(9,10)] by simp

lemma lawful_toy: "lawful toy"
  by (auto simp: lawful_def toy_def mult.commute split: list.splits)

lemmas toy_eval = encryptMessage_def decryptMessage_def alice_def bob_def toy_def js_def
  arrayBufferToBase64_def base64ToArrayBuffer_def iv0_def TextEncoder_encode_def
  TextDecoder_decode_def utf8Bytes_def isLeadSurrogate_def isTrailSurrogate_def
  utf8_step_def utf8_lead_def utf8_start_def utf16Units_def

text \<open>The theorem at the two example services and the plaintext \<open>hi\<close>.\<close>

theorem decrypt_inverts_encrypt_witness:
  "\<exists>env. encryptMessage toy iv0 (js ''hi'') (js ''B'') alice = Inr env \<and>
         decryptMessage toy env (js ''A'') bob = Inr (js ''hi'')"
proof -
  have k: "isKeyPair toy \<lparr>publicKey = 3, privateKey = 3\<rparr>" "isKeyPair toy \<lparr>publicKey = 5, privateKey = 5\<rparr>"
    by (simp_all add: toy_def)
  have a: "keyPair alice = Some \<lparr>publicKey = 3, privateKey = 3\<rparr>"
    "peerPublicKeys alice (js ''B'') = Some (publicKey \<lparr>publicKey = 5 :: byte, privateKey = 5 :: byte\<rparr>)"
    by (simp_all add: alice_def)
  have b: "keyPair bob = Some \<lparr>publicKey = 5, privateKey = 5\<rparr>"
    "peerPublicKeys bob (js ''A'') = Some (publicKey \<lparr>publicKey = 3 :: byte, privateKey = 3 :: byte\<rparr>)"
    by (simp_all add: bob_def)
  have m: "length iv0 = 12" "wellFormed (js ''hi'')" "js ''hi'' = [] \<or> hd (js ''hi'') \<noteq> 0xFEFF"
    by (simp_all add: iv0_def js_def isLeadSurrogate_def isTrailSurrogate_def)
  show ?thesis
    by (rule decrypt_inverts_encrypt [OF lawful_toy k a b m])
qed

text \<open>
  C1 as stated fails: the plaintext of the single code unit D800, an unpaired surrogate,
  comes back as U+FFFD, and the plaintext U+FEFF \<open>h\<close> comes back as \<open>h\<close>.
\<close>

theorem decrypt_inverts_encrypt_counterexample:
  "encryptMessage toy iv0 [0xD800] (js ''B'') alice =
     Inr [0,0,0,0,0,0,0,0,0,0,0,0, 15, 0,0,0,0,0,0,0,0,0,0,0,0, 0xEF, 0xBF, 0xBD] \<and>
   decryptMessage toy [0,0,0,0,0,0,0,0,0,0,0,0, 15, 0,0,0,0,0,0,0,0,0,0,0,0, 0xEF, 0xBF, 0xBD]
     (js ''A'') bob = Inr [0xFFFD] \<and>
   encryptMessage toy iv0 [0xFEFF, 0x68] (js ''B'') alice =
     Inr [0,0,0,0,0,0,0,0,0,0,0,0, 15, 0,0,0,0,0,0,0,0,0,0,0,0, 0xEF, 0xBB, 0xBF, 0x68] \<and>
   decryptMessage toy [0,0,0,0,0,0,0,0,0,0,0,0, 15, 0,0,0,0,0,0,0,0,0,0,0,0, 0xEF, 0xBB, 0xBF, 0x68]
     (js ''A'') bob = Inr [0x68]"
  by (simp add: toy_eval)

text \<open>
  C6, as amended. With the keys in place, two calls of \<open>encryptMessage\<close> on the same
  plaintext and peer that draw different 12-byte nonces both return an envelope; each
  envelope is the base64 of the nonce drawn in its call followed by the AES-GCM
  ciphertext of the encoded plaintext under the agreed bits and that nonce; and the two
  envelopes differ.
\<close>

theorem distinct_nonce_distinct_envelope:
  assumes "lawful br" "keyPair svc = Some kp" "peerPublicKeys svc recipientId = Some k"
    and "length iv1 = 12" "length iv2 = 12" "iv1 \<noteq> iv2"
  shows "\<exists>e1 e2.
           encryptMessage br iv1 message recipientId svc = Inr e1 \<and>
           encryptMessage br iv2 message recipientId svc = Inr e2 \<and>
           base64ToArrayBuffer br e1 =
             Inr (iv1 @ aesGcmEncrypt br (deriveBits br k (privateKey kp)) iv1
                          (TextEncoder_encode message)) \<and>
           base64ToArrayBuffer br e2 =
             Inr (iv2 @ aesGcmEncrypt br (deriveBits br k (privateKey kp)) iv2
                          (TextEncoder_encode message)) \<and>
           e1 \<noteq> e2"
proof -
  obtain e1 where e1: "encryptMessage br iv1 message recipientId svc = Inr e1"
    "base64ToArrayBuffer br e1 =
       Inr (iv1 @ aesGcmEncrypt br (deriveBits br k (privateKey kp)) iv1 (TextEncoder_encode message))"
    using encryptMessage_envelope [OF assms(1-3)] by blast
  obtain e2 where e2: "encryptMessage br iv2 message recipientId svc = Inr e2"
    "base64ToArrayBuffer br e2 =
       Inr (iv2 @ aesGcmEncrypt br (deriveBits br k (privateKey kp)) iv2 (TextEncoder_encode message))"
    using encryptMessage_envelope [OF assms(1-3)] by blast
  have "e1 \<noteq> e2"
  proof
    assume "e1 = e2"
    then have "iv1 @ aesGcmEncrypt br (deriveBits br k (privateKey kp)) iv1 (TextEncoder_encode message) =
        iv2 @ aesGcmEncrypt br (deriveBits br k (privateKey kp)) iv2 (TextEncoder_encode message)"
      using e1(2) e2(2) by simp
    then have "iv1 = iv2"
      using assms(4,5) by simp
    then show False
      using assms(6) by simp
  qed
  then show ?thesis
    using e1 e2 by blast
qed

text \<open>The theorem at the example service, for the nonces of zeros and of a one and zeros.\<close>

theorem distinct_nonce_distinct_envelope_witness:
  "\<exists>e1 e2.
     encryptMessage toy iv0 (js ''hi'') (js ''B'') alice = Inr e1 \<and>
     encryptMessage toy [1, 0, 0, 0, 0, 0, 0, 0, 0, 0, 0, 0] (js ''hi'') (js ''B'') alice = Inr e2 \<and>
     base64ToArrayBuffer toy e1 =
       Inr (iv0 @ aesGcmEncrypt toy (deriveBits toy 5 (privateKey \<lparr>publicKey = 3 :: byte, privateKey = 3 :: byte\<rparr>))
                    iv0 (TextEncoder_encode (js ''hi''))) \<and>
     base64ToArrayBuffer toy e2 =
       Inr ([1, 0, 0, 0, 0, 0, 0, 0, 0, 0, 0, 0] @
            aesGcmEncrypt toy (deriveBits toy 5 (privateKey \<lparr>publicKey = 3 :: byte, privateKey = 3 :: byte\<rparr>))
              [1, 0, 0, 0, 0, 0, 0, 0, 0, 0, 0, 0] (TextEncoder_encode (js ''hi''))) \<and>
     e1 \<noteq> e2"
proof -
  have a: "keyPair alice = Some \<lparr>publicKey = 3, privateKey = 3\<rparr>"
    "peerPublicKeys alice (js ''B'') = Some 5"
    by (simp_all add: alice_def)
  have m: "length iv0 = 12" "length [1 :: byte, 0, 0, 0, 0, 0, 0, 0, 0, 0, 0, 0] = 12"
    "iv0 \<noteq> [1, 0, 0, 0, 0, 0, 0, 0, 0, 0, 0, 0]"
    by (simp_all add: iv0_def)
  show ?thesis
    by (rule distinct_nonce_distinct_envelope [OF lawful_toy a m])
qed

text \<open>
  C6 as stated fails: nothing keeps the random source from returning the same twelve
  bytes twice, and two calls that draw the same nonce return the same envelope.
\<close>

theorem fresh_nonce_counterexample:
  "length iv0 = 12 \<and>
   encryptMessage toy iv0 (js ''hi'') (js ''B'') alice =
     Inr [0,0,0,0,0,0,0,0,0,0,0,0, 15, 0,0,0,0,0,0,0,0,0,0,0,0, 0x68, 0x69] \<and>
   \<not> (\<forall>iv1 iv2. length iv1 = 12 \<and> length iv2 = 12 \<longrightarrow>
        encryptMessage toy iv1 (js ''hi'') (js ''B'') alice \<noteq>
        encryptMessage toy iv2 (js ''hi'') (js ''B'') alice)"
proof -
  have l: "length iv0 = 12"
    by (simp add: iv0_def)
  have e: "encryptMessage toy iv0 (js ''hi'') (js ''B'') alice =
     Inr [0,0,0,0,0,0,0,0,0,0,0,0, 15, 0,0,0,0,0,0,0,0,0,0,0,0, 0x68, 0x69]"
    by (simp add: toy_eval)
  show ?thesis
    using l e by blast
qed

text \<open>
  C9. With a public key stored for the peer and no local key pair, \<open>encryptMessage\<close> and
  \<open>decryptMessage\<close> fail on reading \<open>privateKey\<close> of \<open>null\<close>: not the unknown-peer
  error, no envelope and no plaintext. After \<open>generateKeyPair\<close>, and whenever a key pair
  is there, neither of them fails in this way.
\<close>

theorem null_key_pair:
  "(keyPair svc = None \<and> peerPublicKeys svc ident = Some k \<longrightarrow>
      encryptMessage br iv message ident svc = Inl TypeError \<and>
      decryptMessage br encryptedMessage ident svc = Inl TypeError) \<and>
   encryptMessage br iv message ident (generateKeyPair generated svc) \<noteq> Inl TypeError \<and>
   decryptMessage br encryptedMessage ident (generateKeyPair generated svc) \<noteq> Inl TypeError \<and>
   (keyPair svc \<noteq> None \<longrightarrow>
      encryptMessage br iv message ident svc \<noteq> Inl TypeError \<and>
      decryptMessage br encryptedMessage ident svc \<noteq> Inl TypeError)"
  by (auto simp: encryptMessage_def decryptMessage_def generateKeyPair_def Let_def
      arrayBufferToBase64_def base64ToArrayBuffer_def split: option.splits sum.splits)

text \<open>The theorem at a service that has stored a key and never generated its own.\<close>

theorem null_key_pair_witness:
  "encryptMessage toy iv0 (js ''hi'') (js ''B'')
     \<lparr>keyPair = None, peerPublicKeys = [js ''B'' \<mapsto> 5]\<rparr> = Inl TypeError \<and>
   decryptMessage toy (js ''x'') (js ''B'')
     \<lparr>keyPair = None, peerPublicKeys = [js ''B'' \<mapsto> 5]\<rparr> = Inl TypeError \<and>
   encryptMessage toy iv0 (js ''hi'') (js ''B'') alice \<noteq> Inl TypeError \<and>
   decryptMessage toy (js ''x'') (js ''B'') alice \<noteq> Inl TypeError"
proof -
  have n: "keyPair \<lparr>keyPair = None, peerPublicKeys = [js ''B'' \<mapsto> (5 :: byte)]\<rparr>
             = (None :: (byte, byte) CryptoKeyPair option) \<and>
           peerPublicKeys \<lparr>keyPair = (None :: (byte, byte) CryptoKeyPair option),
             peerPublicKeys = [js ''B'' \<mapsto> (5 :: byte)]\<rparr> (js ''B'') = Some 5"
    by simp
  have a: "keyPair alice \<noteq> None"
    by (simp add: alice_def)
  show ?thesis
    using n a
      null_key_pair [of "\<lparr>keyPair = None, peerPublicKeys = [js ''B'' \<mapsto> 5]\<rparr>" "js ''B''" 5
        toy iv0 "js ''hi''" "js ''x''"]
      null_key_pair [of alice "js ''B''" 5 toy iv0 "js ''hi''" "js ''x''"]
    by blast
qed

section \<open>The chat session\<close>

text \<open>
  C5. With no public key stored for an identity, \<open>encryptMessage\<close> and
  \<open>decryptMessage\<close> called with it raise the error that no public key was found for
  that user, and return nothing. The callers catch it and the session goes on:
  \<open>sendMessage\<close> emits nothing, \<open>handleReceiveMessage\<close> appends the placeholder for a
  message that could not be decrypted, \<open>handleMessageEdit\<close> leaves the messages as they are.
\<close>

theorem unknown_peer:
  assumes "peerPublicKeys svc ident = None"
  shows "encryptMessage br iv message ident svc = Inl (NoPublicKeyFound ident) \<and>
         decryptMessage br encryptedMessage ident svc = Inl (NoPublicKeyFound ident) \<and>
         sendMessage br iv sock uid svc messageId now roomId message ident mediaData replyToId = [] \<and>
         handleReceiveMessage br sock uid room svc messageId encryptedMessage ident now replyToId
             mediaData prev = (prev @ [undecryptable messageId ident now], []) \<and>
         handleMessageEdit br svc messageId encryptedMessage ident now prev = prev"
  using assms
  by (simp add: encryptMessage_def decryptMessage_def sendMessage_def handleReceiveMessage_def
      handleMessageEdit_def)

text \<open>The theorem at a service that has stored no key.\<close>

theorem unknown_peer_witness:
  "encryptMessage toy iv0 (js ''hi'') (js ''B'') newEncryptionService = Inl (NoPublicKeyFound (js ''B'')) \<and>
   decryptMessage toy (js ''x'') (js ''B'') newEncryptionService = Inl (NoPublicKeyFound (js ''B'')) \<and>
   handleReceiveMessage toy True (Some (js ''A'')) (Some (js ''R'')) newEncryptionService
       (js ''m1'') (js ''x'') (js ''B'') (js ''t'') None None [] =
     ([undecryptable (js ''m1'') (js ''B'') (js ''t'')], [])"
proof -
  have n: "peerPublicKeys (newEncryptionService :: (byte, byte) EncryptionService) (js ''B'') = None"
    by (simp add: newEncryptionService_def)
  show ?thesis
    using unknown_peer [OF n, of toy iv0 "js ''hi''" "js ''x''" True "Some (js ''A'')" "js ''m1''"
        "js ''t''" "js ''R''" None None "Some (js ''R'')" "[]"]
    by simp
qed





lemma reaction_mem:
  "\<lparr>emoji = emo, Reaction.userId = uid\<rparr> \<in> set rs \<longleftrightarrow>
     (\<exists>r \<in> set rs. Reaction.userId r = uid \<and> emoji r = emo)"
proof
  assume "\<lparr>emoji = emo, Reaction.userId = uid\<rparr> \<in> set rs"
  then show "\<exists>r \<in> set rs. Reaction.userId r = uid \<and> emoji r = emo"
    by force
next
  assume "\<exists>r \<in> set rs. Reaction.userId r = uid \<and> emoji r = emo"
  then obtain r where r: "r \<in> set rs" "Reaction.userId r = uid" "emoji r = emo"
    by blast
  have "r = \<lparr>emoji = emo, Reaction.userId = uid\<rparr>"
    using r(2,3) by (cases r) simp
  then show "\<lparr>emoji = emo, Reaction.userId = uid\<rparr> \<in> set rs"
    using r(1) by simp
qed

lemma handleMessageReaction_distinct:
  assumes "\<forall>msg \<in> set prev. distinct (reactionsOf msg)"
  shows "\<forall>msg \<in> set (handleMessageReaction messageId uid emo remove prev). distinct (reactionsOf msg)"
  using assms
  by (auto simp: handleMessageReaction_def reactionsOf_def Let_def reaction_mem split: option.splits)

lemma handleReaction_distinct:
  assumes "\<forall>msg \<in> set prev. distinct (reactionsOf msg)" "truthy uid"
  shows "\<forall>msg \<in> set (fst (handleReaction sock uid room messageId emo remove prev)).
           distinct (reactionsOf msg)"
proof -
  obtain me where me: "uid = Some me"
    using assms(2) by (auto simp: truthy_def)
  show ?thesis
    using assms
    by (auto simp: handleReaction_def reactionsOf_def Let_def me orUnknown_def find_None_iff
        reaction_mem split: option.splits)
qed

lemma shown_truthy:
  assumes "chat_inv st"
    and "msg \<in> set (filteredMessages (Chat.userId st) (currentRoom st) (selectedRoom st)
                     (popoutRooms st) roomId (messages st))"
  shows "truthy (Chat.userId st)"
  using assms by (auto simp: chat_inv_def filteredMessages_def truthy_def)

lemma chat_step_inv:
  assumes "chat_inv st"
  shows "chat_inv (chat_step st e)"
proof (cases e)
  case (ReactionRelayed messageId uid emo remove)
  then show ?thesis
    using assms handleMessageReaction_distinct [of "messages st"]
    by (simp add: chat_inv_def)
next
  case (ReactionClicked roomId messageId emo remove)
  show ?thesis
  proof (cases "\<exists>msg \<in> set (filteredMessages (Chat.userId st) (currentRoom st) (selectedRoom st)
                       (popoutRooms st) roomId (messages st)). id' msg = messageId")
    case True
    then have "truthy (Chat.userId st)"
      using shown_truthy [OF assms] by blast
    then show ?thesis
      using assms ReactionClicked True handleReaction_distinct [of "messages st" "Chat.userId st"]
      by (simp add: chat_inv_def)
  next
    case False
    then show ?thesis
      using assms ReactionClicked by simp
  qed
next
  case (RoomSelected room)
  then show ?thesis
    using assms by (auto simp: chat_inv_def joinRoom_def)
next
  case (MessageAppended msg)
  then show ?thesis
    using assms by (auto simp: chat_inv_def reactionsOf_def)
next
  case (EditApplied ident newText edited)
  then show ?thesis
    using assms by (auto simp: chat_inv_def reactionsOf_def)
next
  case (DeleteRelayed ident relayedBy)
  then show ?thesis
    using assms by (auto simp: chat_inv_def reactionsOf_def handleMessageDelete_def)
next
  case (DeleteClicked ident)
  then show ?thesis
    using assms by (auto simp: chat_inv_def reactionsOf_def handleDeleteMessage_def)
next
  case (ReadRelayed messageId reader)
  then show ?thesis
    using assms by (auto simp: chat_inv_def reactionsOf_def handleMessageRead_def Let_def)
next
  case (SocketConnected sid)
  then show ?thesis
    using assms by (auto simp: chat_inv_def truthy_def)
next
  case SocketCreated
  then show ?thesis
    using assms by (auto simp: chat_inv_def)
next
  case PopoutOpened
  then show ?thesis
    using assms by (auto simp: chat_inv_def)
next
  case (PopoutClosed n)
  then show ?thesis
    using assms by (auto simp: chat_inv_def)
qed

lemma foldl_chat_step_inv: "chat_inv st \<Longrightarrow> chat_inv (foldl chat_step st evs)"
  by (induction evs arbitrary: st) (simp_all add: chat_step_inv)

lemma chat_run_inv: "chat_inv (chat_run evs)"
  unfolding chat_run_def
  by (rule foldl_chat_step_inv) (simp add: chat_inv_def newChat_def truthy_def)

lemma count_distinct: "distinct xs \<Longrightarrow> x \<in> set xs \<Longrightarrow> length (filter (\<lambda>y. y = x) xs) = 1"
  by (induction xs) (auto simp: filter_empty_conv)

lemma handleReaction_nth:
  assumes "i < length prev" "me \<noteq> []"
  shows "reactionsOf (fst (handleReaction sock (Some me) room messageId emo remove prev) ! i) =
     (if truthy room \<and> id' (prev ! i) = messageId then
        (if remove = Some True
         then filter (\<lambda>r. \<not> (Reaction.userId r = me \<and> emoji r = emo)) (reactionsOf (prev ! i))
         else if \<lparr>emoji = emo, Reaction.userId = me\<rparr> \<in> set (reactionsOf (prev ! i))
              then reactionsOf (prev ! i)
              else reactionsOf (prev ! i) @ [\<lparr>emoji = emo, Reaction.userId = me\<rparr>])
      else reactionsOf (prev ! i))"
  using assms
  by (auto simp: handleReaction_def reactionsOf_def Let_def orUnknown_def truthy_def find_None_iff
      reaction_mem split: option.splits)

lemma handleMessageReaction_nth:
  assumes "i < length prev"
  shows "reactionsOf (handleMessageReaction messageId uid emo remove prev ! i) =
     (if id' (prev ! i) = messageId then
        (if remove = Some True
         then filter (\<lambda>r. \<not> (Reaction.userId r = uid \<and> emoji r = emo)) (reactionsOf (prev ! i))
         else if \<lparr>emoji = emo, Reaction.userId = uid\<rparr> \<in> set (reactionsOf (prev ! i))
              then reactionsOf (prev ! i)
              else reactionsOf (prev ! i) @ [\<lparr>emoji = emo, Reaction.userId = uid\<rparr>])
      else reactionsOf (prev ! i))"
  using assms
  by (auto simp: handleMessageReaction_def reactionsOf_def Let_def reaction_mem split: option.splits)

lemma filter_absent:
  "\<lparr>emoji = emo, Reaction.userId = uid\<rparr> \<notin> set rs \<Longrightarrow>
   filter (\<lambda>r. \<not> (Reaction.userId r = uid \<and> emoji r = emo)) rs = rs"
  by (auto simp: filter_id_conv reaction_mem)

text \<open>
  C7. In every state \<open>st\<close> that the session reaches, no message has the same
  (user, emoji) pair twice among its reactions, and none has after a relayed reaction
  event (\<open>handleMessageReaction\<close>) or after the local user has clicked a reaction on a
  message that is shown (\<open>handleReaction\<close>). By either handler, an add of a pair that
  the message already has leaves its reactions as they are, with exactly one entry for
  the pair, and a remove of a pair that it does not have leaves its reactions as they
  are. The pair of a click is the local user's id with the emoji.
\<close>

theorem reaction_toggle:
  assumes "st = chat_run evs" "i < length (messages st)"
  shows "distinct (reactionsOf (messages st ! i)) \<and>
         distinct (reactionsOf (handleMessageReaction messageId uid emo remove (messages st) ! i)) \<and>
         (id' (messages st ! i) = messageId \<and> remove \<noteq> Some True \<and>
          \<lparr>emoji = emo, Reaction.userId = uid\<rparr> \<in> set (reactionsOf (messages st ! i)) \<longrightarrow>
            reactionsOf (handleMessageReaction messageId uid emo remove (messages st) ! i)
              = reactionsOf (messages st ! i) \<and>
            length (filter (\<lambda>r. r = \<lparr>emoji = emo, Reaction.userId = uid\<rparr>)
              (reactionsOf (handleMessageReaction messageId uid emo remove (messages st) ! i))) = 1) \<and>
         (id' (messages st ! i) = messageId \<and> remove = Some True \<and>
          \<lparr>emoji = emo, Reaction.userId = uid\<rparr> \<notin> set (reactionsOf (messages st ! i)) \<longrightarrow>
            reactionsOf (handleMessageReaction messageId uid emo remove (messages st) ! i)
              = reactionsOf (messages st ! i)) \<and>
         ((\<exists>msg \<in> set (filteredMessages (Chat.userId st) (currentRoom st) (selectedRoom st)
                        (popoutRooms st) roomId (messages st)). id' msg = messageId) \<longrightarrow>
          Chat.userId st = Some (orUnknown (Chat.userId st)) \<and>
          distinct (reactionsOf (fst (handleReaction (socket st) (Chat.userId st) (selectedRoom st)
                                       messageId emo remove (messages st)) ! i)) \<and>
          (id' (messages st ! i) = messageId \<and> remove \<noteq> Some True \<and>
           \<lparr>emoji = emo, Reaction.userId = orUnknown (Chat.userId st)\<rparr>
             \<in> set (reactionsOf (messages st ! i)) \<longrightarrow>
             reactionsOf (fst (handleReaction (socket st) (Chat.userId st) (selectedRoom st)
                                 messageId emo remove (messages st)) ! i)
               = reactionsOf (messages st ! i) \<and>
             length (filter (\<lambda>r. r = \<lparr>emoji = emo, Reaction.userId = orUnknown (Chat.userId st)\<rparr>)
               (reactionsOf (fst (handleReaction (socket st) (Chat.userId st) (selectedRoom st)
                                    messageId emo remove (messages st)) ! i))) = 1) \<and>
          (id' (messages st ! i) = messageId \<and> remove = Some True \<and>
           \<lparr>emoji = emo, Reaction.userId = orUnknown (Chat.userId st)\<rparr>
             \<notin> set (reactionsOf (messages st ! i)) \<longrightarrow>
             reactionsOf (fst (handleReaction (socket st) (Chat.userId st) (selectedRoom st)
                                 messageId emo remove (messages st)) ! i)
               = reactionsOf (messages st ! i)))"
proof -
  let ?msgs = "messages st"
  have ci: "chat_inv st"
    unfolding assms(1) by (rule chat_run_inv)
  then have inv: "\<forall>msg \<in> set ?msgs. distinct (reactionsOf msg)"
    by (simp add: chat_inv_def)
  have d1: "distinct (reactionsOf (?msgs ! i))"
    using inv assms(2) by simp
  have len: "length (handleMessageReaction messageId uid emo remove ?msgs) = length ?msgs"
    by (simp add: handleMessageReaction_def)
  have d2: "distinct (reactionsOf (handleMessageReaction messageId uid emo remove ?msgs ! i))"
    using handleMessageReaction_distinct [OF inv, of messageId uid emo remove] assms(2) len
    by (metis nth_mem)
  have relayed:
    "id' (?msgs ! i) = messageId \<and> remove \<noteq> Some True \<and>
       \<lparr>emoji = emo, Reaction.userId = uid\<rparr> \<in> set (reactionsOf (?msgs ! i)) \<longrightarrow>
         reactionsOf (handleMessageReaction messageId uid emo remove ?msgs ! i) = reactionsOf (?msgs ! i) \<and>
         length (filter (\<lambda>r. r = \<lparr>emoji = emo, Reaction.userId = uid\<rparr>)
           (reactionsOf (handleMessageReaction messageId uid emo remove ?msgs ! i))) = 1"
    "id' (?msgs ! i) = messageId \<and> remove = Some True \<and>
       \<lparr>emoji = emo, Reaction.userId = uid\<rparr> \<notin> set (reactionsOf (?msgs ! i)) \<longrightarrow>
         reactionsOf (handleMessageReaction messageId uid emo remove ?msgs ! i) = reactionsOf (?msgs ! i)"
    using count_distinct [OF d1] filter_absent
    by (simp_all add: handleMessageReaction_nth [OF assms(2)])
  have clicked:
    "Chat.userId st = Some (orUnknown (Chat.userId st)) \<and>
     distinct (reactionsOf (fst (handleReaction (socket st) (Chat.userId st) (selectedRoom st)
                                       messageId emo remove ?msgs) ! i)) \<and>
     (id' (?msgs ! i) = messageId \<and> remove \<noteq> Some True \<and>
      \<lparr>emoji = emo, Reaction.userId = orUnknown (Chat.userId st)\<rparr> \<in> set (reactionsOf (?msgs ! i)) \<longrightarrow>
        reactionsOf (fst (handleReaction (socket st) (Chat.userId st) (selectedRoom st)
                            messageId emo remove ?msgs) ! i) = reactionsOf (?msgs ! i) \<and>
        length (filter (\<lambda>r. r = \<lparr>emoji = emo, Reaction.userId = orUnknown (Chat.userId st)\<rparr>)
          (reactionsOf (fst (handleReaction (socket st) (Chat.userId st) (selectedRoom st)
                               messageId emo remove ?msgs) ! i))) = 1) \<and>
     (id' (?msgs ! i) = messageId \<and> remove = Some True \<and>
      \<lparr>emoji = emo, Reaction.userId = orUnknown (Chat.userId st)\<rparr> \<notin> set (reactionsOf (?msgs ! i)) \<longrightarrow>
        reactionsOf (fst (handleReaction (socket st) (Chat.userId st) (selectedRoom st)
                            messageId emo remove ?msgs) ! i) = reactionsOf (?msgs ! i))"
    if shown: "\<exists>msg \<in> set (filteredMessages (Chat.userId st) (currentRoom st) (selectedRoom st)
                        (popoutRooms st) roomId ?msgs). id' msg = messageId"
  proof -
    have t: "truthy (Chat.userId st)"
      using shown shown_truthy [OF ci] by blast
    then obtain me where me: "Chat.userId st = Some me" "me \<noteq> []"
      by (auto simp: truthy_def)
    have o: "orUnknown (Some me) = me"
      using me(2) by (simp add: orUnknown_def truthy_def)
    have len': "length (fst (handleReaction (socket st) (Some me) (selectedRoom st)
        messageId emo remove ?msgs)) = length ?msgs"
      by (simp add: handleReaction_def)
    have d3: "distinct (reactionsOf (fst (handleReaction (socket st) (Some me) (selectedRoom st)
        messageId emo remove ?msgs) ! i))"
      using handleReaction_distinct [OF inv, of "Some me" "socket st" "selectedRoom st" messageId emo
          remove] t me(1) assms(2) len'
      by (metis nth_mem)
    show ?thesis
      unfolding me(1) o using d3 count_distinct [OF d1] filter_absent
      by (simp add: handleReaction_nth [OF assms(2) me(2)])
  qed
  show ?thesis
    using d1 d2 relayed clicked by blast
qed

lemma reactionEvents_messages:
  "messages (chat_run reactionEvents) =
     [messageFromB\<lparr>reactions := Some [\<lparr>emoji = js ''+'', Reaction.userId = js ''A''\<rparr>,
                                         \<lparr>emoji = js ''+'', Reaction.userId = js ''B''\<rparr>]\<rparr>]"
  by (simp add: chat_run_def reactionEvents_def newChat_def joinRoom_def truthy_def
      filteredMessages_def handleReaction_def handleMessageReaction_def orUnknown_def
      messageFromB_def js_def Let_def)

text \<open>
  The theorem after A and B have both reacted with \<open>+\<close> to a message that A is shown in
  the room R: B's \<open>+\<close> is relayed again, C's \<open>+\<close>, which is not there, is removed by a
  relayed event, and A clicks \<open>+\<close> again.
\<close>

theorem reaction_toggle_witness:
  "reactionsOf (handleMessageReaction (js ''m1'') (js ''B'') (js ''+'') None
       (messages (chat_run reactionEvents)) ! 0) =
     [\<lparr>emoji = js ''+'', Reaction.userId = js ''A''\<rparr>, \<lparr>emoji = js ''+'', Reaction.userId = js ''B''\<rparr>] \<and>
   length (filter (\<lambda>r. r = \<lparr>emoji = js ''+'', Reaction.userId = js ''B''\<rparr>)
     (reactionsOf (handleMessageReaction (js ''m1'') (js ''B'') (js ''+'') None
       (messages (chat_run reactionEvents)) ! 0))) = 1 \<and>
   reactionsOf (handleMessageReaction (js ''m1'') (js ''C'') (js ''+'') (Some True)
       (messages (chat_run reactionEvents)) ! 0) =
     [\<lparr>emoji = js ''+'', Reaction.userId = js ''A''\<rparr>, \<lparr>emoji = js ''+'', Reaction.userId = js ''B''\<rparr>] \<and>
   reactionsOf (fst (handleReaction (socket (chat_run reactionEvents))
       (Chat.userId (chat_run reactionEvents)) (selectedRoom (chat_run reactionEvents))
       (js ''m1'') (js ''+'') None (messages (chat_run reactionEvents))) ! 0) =
     [\<lparr>emoji = js ''+'', Reaction.userId = js ''A''\<rparr>, \<lparr>emoji = js ''+'', Reaction.userId = js ''B''\<rparr>] \<and>
   length (filter (\<lambda>r. r = \<lparr>emoji = js ''+'', Reaction.userId = js ''A''\<rparr>)
     (reactionsOf (fst (handleReaction (socket (chat_run reactionEvents))
       (Chat.userId (chat_run reactionEvents)) (selectedRoom (chat_run reactionEvents))
       (js ''m1'') (js ''+'') None (messages (chat_run reactionEvents))) ! 0))) = 1"
proof -
  have h: "0 < length (messages (chat_run reactionEvents))"
    by (simp add: reactionEvents_messages)
  have m: "id' (messages (chat_run reactionEvents) ! 0) = js ''m1''"
    "reactionsOf (messages (chat_run reactionEvents) ! 0) =
       [\<lparr>emoji = js ''+'', Reaction.userId = js ''A''\<rparr>, \<lparr>emoji = js ''+'', Reaction.userId = js ''B''\<rparr>]"
    by (simp_all add: reactionEvents_messages reactionsOf_def messageFromB_def)
  have n: "\<lparr>emoji = js ''+'', Reaction.userId = js ''B''\<rparr> \<in>
      set [\<lparr>emoji = js ''+'', Reaction.userId = js ''A''\<rparr>, \<lparr>emoji = js ''+'', Reaction.userId = js ''B''\<rparr>]"
    "\<lparr>emoji = js ''+'', Reaction.userId = js ''C''\<rparr> \<notin>
      set [\<lparr>emoji = js ''+'', Reaction.userId = js ''A''\<rparr>, \<lparr>emoji = js ''+'', Reaction.userId = js ''B''\<rparr>]"
    "\<lparr>emoji = js ''+'', Reaction.userId = js ''A''\<rparr> \<in>
      set [\<lparr>emoji = js ''+'', Reaction.userId = js ''A''\<rparr>, \<lparr>emoji = js ''+'', Reaction.userId = js ''B''\<rparr>]"
    by (simp_all add: js_def)
  have u: "Chat.userId (chat_run reactionEvents) = Some (js ''A'')"
    "currentRoom (chat_run reactionEvents) = Some (js ''R'')"
    "selectedRoom (chat_run reactionEvents) = Some (js ''R'')"
    by (simp_all add: chat_run_def reactionEvents_def newChat_def joinRoom_def truthy_def js_def)
  have s: "\<exists>msg \<in> set (filteredMessages (Chat.userId (chat_run reactionEvents))
        (currentRoom (chat_run reactionEvents)) (selectedRoom (chat_run reactionEvents))
        (popoutRooms (chat_run reactionEvents)) (js ''R'') (messages (chat_run reactionEvents))).
      id' msg = js ''m1''"
    by (simp add: u filteredMessages_def reactionEvents_messages messageFromB_def)
  have o: "orUnknown (Some (js ''A'')) = js ''A''"
    by (simp add: orUnknown_def truthy_def js_def)
  have ne: "js ''B'' \<noteq> js ''A''"
    by (simp add: js_def)
  show ?thesis
    using reaction_toggle [OF refl h, of "js ''m1''" "js ''B''" "js ''+''" None "js ''R''"]
      reaction_toggle [OF refl h, of "js ''m1''" "js ''C''" "js ''+''" "Some True" "js ''R''"]
      m n s ne
    by (simp add: u o)
qed

section \<open>Typing indicators expire\<close>

lemma present_step:
  assumes "\<exists>x \<in> set st. TypingUser.userId x = u \<and> T \<le> TypingUser.timestamp x"
    and "T \<le> fst e" "fst e \<le> T + 2000"
  shows "\<exists>x \<in> set (typing_step uid room st e). TypingUser.userId x = u \<and> T \<le> TypingUser.timestamp x"
proof (cases e)
  case (Pair now ev)
  obtain x where x: "x \<in> set st" "TypingUser.userId x = u" "T \<le> TypingUser.timestamp x"
    using assms(1) by blast
  show ?thesis
  proof (cases ev)
    case (TypingSignal typist roomId)
    show ?thesis
    proof (cases "typist = u")
      case True
      then show ?thesis
        using Pair TypingSignal assms x by (auto simp: handleUserTyping_def)
    next
      case False
      then have "x \<in> set (typing_step uid room st e)"
        using Pair TypingSignal x by (auto simp: handleUserTyping_def)
      then show ?thesis
        using x by blast
    qed
  next
    case Sweep
    have "now - TypingUser.timestamp x < 3000"
      using assms(3) x(3) Pair by simp
    then have "x \<in> set (typing_step uid room st e)"
      using Pair Sweep x(1) by (simp add: expireTyping_def)
    then show ?thesis
      using x by blast
  qed
qed

lemma present_run:
  assumes "\<exists>x \<in> set st. TypingUser.userId x = u \<and> T \<le> TypingUser.timestamp x"
    and "\<forall>e \<in> set evs. T \<le> fst e \<and> fst e \<le> T + 2000"
  shows "\<exists>x \<in> set (foldl (typing_step uid room) st evs).
           TypingUser.userId x = u \<and> T \<le> TypingUser.timestamp x"
  using assms
proof (induction evs arbitrary: st)
  case Nil
  then show ?case by simp
next
  case (Cons e evs)
  have "\<exists>x \<in> set (typing_step uid room st e). TypingUser.userId x = u \<and> T \<le> TypingUser.timestamp x"
    using Cons.prems by (intro present_step) simp_all
  then show ?case
    using Cons.IH [of "typing_step uid room st e"] Cons.prems(2) by simp
qed

lemma fresh_step:
  assumes "\<forall>x \<in> set st. T < TypingUser.timestamp x" "T < fst e"
  shows "\<forall>x \<in> set (typing_step uid room st e). T < TypingUser.timestamp x"
  using assms by (cases e; cases "snd e") (auto simp: handleUserTyping_def expireTyping_def)

lemma fresh_run:
  assumes "\<forall>x \<in> set st. T < TypingUser.timestamp x" "\<forall>e \<in> set evs. T < fst e"
  shows "\<forall>x \<in> set (foldl (typing_step uid room) st evs). T < TypingUser.timestamp x"
  using assms
proof (induction evs arbitrary: st)
  case Nil
  then show ?case by simp
next
  case (Cons e evs)
  have "\<forall>x \<in> set (typing_step uid room st e). T < TypingUser.timestamp x"
    using Cons.prems by (intro fresh_step) simp_all
  then show ?case
    using Cons.IH [of "typing_step uid room st e"] Cons.prems(2) by simp
qed

lemma sweep_fresh:
  assumes "T + 3000 \<le> s"
  shows "\<forall>x \<in> set (typing_step uid room st (s, Sweep)). T < TypingUser.timestamp x"
  using assms by (auto simp: expireTyping_def)

lemma from_signal_step:
  assumes "x \<in> set (typing_step uid room st e)"
  shows "x \<in> set st \<or> (\<exists>r. e = (TypingUser.timestamp x, TypingSignal (TypingUser.userId x) r))"
  using assms
  by (cases e; cases "snd e") (auto simp: handleUserTyping_def expireTyping_def split: if_splits)

lemma from_signal_run:
  assumes "x \<in> set (foldl (typing_step uid room) st evs)"
  shows "x \<in> set st \<or>
         (\<exists>r. (TypingUser.timestamp x, TypingSignal (TypingUser.userId x) r) \<in> set evs)"
  using assms
proof (induction evs arbitrary: st)
  case Nil
  then show ?case by simp
next
  case (Cons e evs)
  then have "x \<in> set (typing_step uid room st e) \<or>
      (\<exists>r. (TypingUser.timestamp x, TypingSignal (TypingUser.userId x) r) \<in> set evs)"
    by simp
  then show ?case
    using from_signal_step [of x uid room st e] by auto
qed

lemma sorted_after:
  assumes "sorted (map fst (pre @ e # post))"
  shows "\<forall>e' \<in> set post. fst e \<le> fst e'"
  using assms by (auto simp: sorted_append)

lemma sweep_in_window:
  assumes "start \<le> T" "sweepsEverySecond start (T + 4000) trace"
  shows "\<exists>s. (s, Sweep) \<in> set trace \<and> T + 3000 \<le> s \<and> s \<le> T + 4000"
proof -
  define d where "d = T + 4000 - start"
  define k where "k = nat (d div 1000)"
  have d: "4000 \<le> d"
    using assms(1) by (simp add: d_def)
  then have q: "4 \<le> d div 1000"
    by simp
  have ik: "int k = d div 1000"
    using q by (simp add: k_def)
  have "k \<in> {1 .. nat ((T + 4000 - start) div 1000)}"
    using q by (simp add: k_def d_def)
  then have m: "(start + 1000 * int k, Sweep) \<in> set trace"
    using assms(2) unfolding sweepsEverySecond_def by blast
  have "d = 1000 * (d div 1000) + d mod 1000" "0 \<le> d mod 1000" "d mod 1000 < 1000"
    by simp_all
  then have "1000 * int k \<le> d" "d < 1000 * int k + 1000"
    unfolding ik by linarith+
  then have "T + 3000 \<le> start + 1000 * int k" "start + 1000 * int k \<le> T + 4000"
    by (simp_all add: d_def)
  then show ?thesis
    using m by blast
qed


lemma filter_sorted_split:
  assumes "sorted (map fst trace)" "(t0, ev) \<in> set trace" "t0 \<le> t"
  shows "\<exists>pre post. filter (\<lambda>e. fst e \<le> t) trace = pre @ (t0, ev) # post \<and>
           (\<forall>e \<in> set post. t0 \<le> fst e \<and> fst e \<le> t)"
proof -
  let ?f = "filter (\<lambda>e. fst e \<le> t) trace"
  have s: "sorted (map fst ?f)"
    using assms(1) by (simp add: sorted_filter)
  have "(t0, ev) \<in> set ?f"
    using assms(2,3) by simp
  then obtain pre post where p: "?f = pre @ (t0, ev) # post"
    by (meson split_list)
  have "\<forall>e \<in> set post. fst (t0, ev) \<le> fst e"
    using s unfolding p by (rule sorted_after)
  moreover have "\<forall>e \<in> set post. fst e \<le> t"
  proof
    fix e assume "e \<in> set post"
    then have "e \<in> set ?f"
      unfolding p by simp
    then show "fst e \<le> t"
      by simp
  qed
  ultimately show ?thesis
    using p by auto
qed

text \<open>
  C8. A trace in the order of time, with the sweeps of an interval started no later than
  \<open>T\<close> firing every 1000 ms up to \<open>T + 4000\<close>, in which a typing signal of the
  peer \<open>u\<close> is recorded at the time \<open>T\<close> (it is not the local user, and it is for
  the selected room). At \<open>T + 2000\<close> the peer has an entry in the typing state. At
  \<open>T + 4000\<close> no entry is left that was recorded at \<open>T\<close> or before, and the peer
  has no entry at all when it sent no signal after \<open>T\<close>.
\<close>

theorem typing_entry_expires:
  assumes "sorted (map fst trace)"
    and "(T, TypingSignal u r) \<in> set trace" "Some u \<noteq> uid" "room = Some r"
    and "start \<le> T" "sweepsEverySecond start (T + 4000) trace"
  shows "u \<in> TypingUser.userId ` set (typingAt uid room trace (T + 2000)) \<and>
         (\<forall>x \<in> set (typingAt uid room trace (T + 4000)). T < TypingUser.timestamp x) \<and>
         ((\<forall>t r'. (t, TypingSignal u r') \<in> set trace \<longrightarrow> t \<le> T) \<longrightarrow>
            u \<notin> TypingUser.userId ` set (typingAt uid room trace (T + 4000)))"
proof -
  have present: "u \<in> TypingUser.userId ` set (typingAt uid room trace (T + 2000))"
  proof -
    obtain pre post where p:
      "filter (\<lambda>e. fst e \<le> T + 2000) trace = pre @ (T, TypingSignal u r) # post"
      "\<forall>e \<in> set post. T \<le> fst e \<and> fst e \<le> T + 2000"
      using filter_sorted_split [OF assms(1,2), of "T + 2000"] by auto
    let ?st = "typing_step uid room (foldl (typing_step uid room) [] pre) (T, TypingSignal u r)"
    have "\<exists>x \<in> set ?st. TypingUser.userId x = u \<and> T \<le> TypingUser.timestamp x"
      using assms(3,4) by (auto simp: handleUserTyping_def)
    then have "\<exists>x \<in> set (foldl (typing_step uid room) ?st post).
        TypingUser.userId x = u \<and> T \<le> TypingUser.timestamp x"
      using p(2) by (rule present_run)
    then show ?thesis
      by (auto simp: typingAt_def p(1))
  qed
  have fresh: "\<forall>x \<in> set (typingAt uid room trace (T + 4000)). T < TypingUser.timestamp x"
  proof -
    obtain s where s: "(s, Sweep) \<in> set trace" "T + 3000 \<le> s" "s \<le> T + 4000"
      using sweep_in_window [OF assms(5,6)] by blast
    obtain pre post where p:
      "filter (\<lambda>e. fst e \<le> T + 4000) trace = pre @ (s, Sweep) # post"
      "\<forall>e \<in> set post. s \<le> fst e \<and> fst e \<le> T + 4000"
      using filter_sorted_split [OF assms(1) s(1,3)] by auto
    let ?st = "typing_step uid room (foldl (typing_step uid room) [] pre) (s, Sweep)"
    have a: "\<forall>x \<in> set ?st. T < TypingUser.timestamp x"
      using s(2) by (rule sweep_fresh)
    have b: "\<forall>e \<in> set post. T < fst e"
      using p(2) s(2) by auto
    have "\<forall>x \<in> set (foldl (typing_step uid room) ?st post). T < TypingUser.timestamp x"
      using a b by (rule fresh_run)
    then show ?thesis
      by (simp add: typingAt_def p(1))
  qed
  have absent: "u \<notin> TypingUser.userId ` set (typingAt uid room trace (T + 4000))"
    if last: "\<forall>t r'. (t, TypingSignal u r') \<in> set trace \<longrightarrow> t \<le> T"
  proof
    assume "u \<in> TypingUser.userId ` set (typingAt uid room trace (T + 4000))"
    then obtain x where x: "x \<in> set (typingAt uid room trace (T + 4000))" "TypingUser.userId x = u"
      by auto
    have "x \<in> set (foldl (typing_step uid room) [] (filter (\<lambda>e. fst e \<le> T + 4000) trace))"
      using x(1) by (simp add: typingAt_def)
    then have "\<exists>r'. (TypingUser.timestamp x, TypingSignal (TypingUser.userId x) r')
        \<in> set (filter (\<lambda>e. fst e \<le> T + 4000) trace)"
      using from_signal_run [of x uid room "[]" "filter (\<lambda>e. fst e \<le> T + 4000) trace"] by simp
    then obtain r' where
      "(TypingUser.timestamp x, TypingSignal u r') \<in> set (filter (\<lambda>e. fst e \<le> T + 4000) trace)"
      using x(2) by blast
    then have "TypingUser.timestamp x \<le> T"
      using last by auto
    then show False
      using fresh x(1) by auto
  qed
  show ?thesis
    using present fresh absent by blast
qed

text \<open>The theorem for a signal at 500 ms and the sweeps at 1000, 2000, 3000 and 4000 ms.\<close>

theorem typing_entry_expires_witness:
  "js ''B'' \<in> TypingUser.userId ` set (typingAt (Some (js ''A'')) (Some (js ''R'')) typingTrace 2500) \<and>
   js ''B'' \<notin> TypingUser.userId ` set (typingAt (Some (js ''A'')) (Some (js ''R'')) typingTrace 4500)"
proof -
  have h: "sorted (map fst typingTrace)" "(500, TypingSignal (js ''B'') (js ''R'')) \<in> set typingTrace"
    "Some (js ''B'') \<noteq> Some (js ''A'')" "(0 :: int) \<le> 500"
    by (simp_all add: typingTrace_def js_def)
  have "k \<in> {1 .. 4} \<Longrightarrow> k = 1 \<or> k = 2 \<or> k = 3 \<or> k = 4" for k :: nat
    by auto
  then have w: "sweepsEverySecond 0 (500 + 4000) typingTrace"
    unfolding sweepsEverySecond_def typingTrace_def by fastforce
  have l: "\<forall>t r'. (t, TypingSignal (js ''B'') r') \<in> set typingTrace \<longrightarrow> t \<le> 500"
    by (simp add: typingTrace_def)
  show ?thesis
    using typing_entry_expires [OF h(1,2,3) refl h(4) w] l by simp
qed

section \<open>The key exchange between two clients\<close>

lemma toy_export:
  "keyPair svc = Some \<lparr>publicKey = k, privateKey = k\<rparr> \<Longrightarrow>
   getPublicKeyAsString toy generated svc = (Inr [ucast k], svc)"
proof -
  have "(ucast k :: 16 word) \<le> 0xFF"
  proof -
    have "uint k < 2 ^ LENGTH(8)"
      by (rule unsigned_less)
    moreover have "uint (ucast k :: 16 word) = uint k"
      by (rule uint_up_ucast) (simp add: is_up)
    ultimately have "uint (ucast k :: 16 word) \<le> uint (0xFF :: 16 word)"
      by simp
    then show ?thesis
      by (simp only: word_le_def)
  qed
  then show "keyPair svc = Some \<lparr>publicKey = k, privateKey = k\<rparr> \<Longrightarrow>
     getPublicKeyAsString toy generated svc = (Inr [ucast k], svc)"
    by (simp add: getPublicKeyAsString_def arrayBufferToBase64_def toy_def)
qed

lemma toy_import:
  "addPeerPublicKey toy peer [3] svc = Inr (svc\<lparr>peerPublicKeys := (peerPublicKeys svc)(peer \<mapsto> 3)\<rparr>)"
  "addPeerPublicKey toy peer [5] svc = Inr (svc\<lparr>peerPublicKeys := (peerPublicKeys svc)(peer \<mapsto> 5)\<rparr>)"
  by (simp_all add: addPeerPublicKey_def base64ToArrayBuffer_def toy_def)

lemma A_to_B:
  assumes "exchanging net" "wire net = keyFromA"
  shows "exchanging (net_step toy generated net) \<and> wire (net_step toy generated net) = keyFromB"
proof -
  obtain svc where b: "clientOf net (js ''B'') = (Some (js ''B''), svc)"
    "keyPair svc = Some \<lparr>publicKey = 5, privateKey = 5\<rparr>"
    using assms(1) by (cases "clientOf net (js ''B'')") (auto simp: exchanging_def)
  have ne: "js ''A'' \<noteq> js ''B''"
    by (simp add: js_def)
  have d: "socket_to_emit (js ''A'') (js ''B'') (exchange_keys_relayed (js ''A'') [3]) (adapterOf net) =
      [(js ''B'', exchange_keys_relayed (js ''A'') [3])]"
    using assms(1) ne by (auto simp: exchanging_def socket_to_emit_def)
  have k: "keyPair (svc\<lparr>peerPublicKeys := (peerPublicKeys svc)(js ''A'' \<mapsto> 3)\<rparr>) =
      Some \<lparr>publicKey = 5, privateKey = 5\<rparr>"
    using b(2) by simp
  have h: "handleKeyExchange toy generated (Some (js ''B'')) svc (js ''A'') [3] =
      (svc\<lparr>peerPublicKeys := (peerPublicKeys svc)(js ''A'' \<mapsto> 3)\<rparr>,
       [exchange_keys (js ''B'') [5] (js ''A'')])"
    using ne by (simp add: handleKeyExchange_def toy_import toy_export [OF k] truthy_def)
                (simp add: js_def)
  have s: "net_step toy generated net =
      \<lparr>adapterOf = adapterOf net,
       clientOf = (clientOf net)(js ''B'' :=
          (Some (js ''B''), svc\<lparr>peerPublicKeys := (peerPublicKeys svc)(js ''A'' \<mapsto> 3)\<rparr>)),
       wire = keyFromB\<rparr>"
    by (simp add: net_step_def assms(2) keyFromA_def keyFromB_def d b(1) h)
  show ?thesis
    unfolding s using assms(1) b(2) ne by (simp add: exchanging_def)
qed

lemma B_to_A:
  assumes "exchanging net" "wire net = keyFromB"
  shows "exchanging (net_step toy generated net) \<and> wire (net_step toy generated net) = keyFromA"
proof -
  obtain svc where a: "clientOf net (js ''A'') = (Some (js ''A''), svc)"
    "keyPair svc = Some \<lparr>publicKey = 3, privateKey = 3\<rparr>"
    using assms(1) by (cases "clientOf net (js ''A'')") (auto simp: exchanging_def)
  have ne: "js ''B'' \<noteq> js ''A''"
    by (simp add: js_def)
  have d: "socket_to_emit (js ''B'') (js ''A'') (exchange_keys_relayed (js ''B'') [5]) (adapterOf net) =
      [(js ''A'', exchange_keys_relayed (js ''B'') [5])]"
    using assms(1) ne by (auto simp: exchanging_def socket_to_emit_def)
  have k: "keyPair (svc\<lparr>peerPublicKeys := (peerPublicKeys svc)(js ''B'' \<mapsto> 5)\<rparr>) =
      Some \<lparr>publicKey = 3, privateKey = 3\<rparr>"
    using a(2) by simp
  have h: "handleKeyExchange toy generated (Some (js ''A'')) svc (js ''B'') [5] =
      (svc\<lparr>peerPublicKeys := (peerPublicKeys svc)(js ''B'' \<mapsto> 5)\<rparr>,
       [exchange_keys (js ''A'') [3] (js ''B'')])"
    using ne by (simp add: handleKeyExchange_def toy_import toy_export [OF k] truthy_def)
                (simp add: js_def)
  have s: "net_step toy generated net =
      \<lparr>adapterOf = adapterOf net,
       clientOf = (clientOf net)(js ''A'' :=
          (Some (js ''A''), svc\<lparr>peerPublicKeys := (peerPublicKeys svc)(js ''B'' \<mapsto> 5)\<rparr>)),
       wire = keyFromA\<rparr>"
    by (simp add: net_step_def assms(2) keyFromA_def keyFromB_def d a(1) h)
  show ?thesis
    unfolding s using assms(1) a(2) ne by (simp add: exchanging_def)
qed

lemma twoClients_joined:
  "socket_join (js ''B'') (js ''R'') (adapterOf twoClients) (js ''R'') = [js ''A'', js ''B'']"
  "socket_join (js ''B'') (js ''R'') (adapterOf twoClients) (js ''A'') = [js ''A'']"
  "socket_join (js ''B'') (js ''R'') (adapterOf twoClients) (js ''B'') = [js ''B'']"
  by (simp_all add: twoClients_def serve_def no_rooms_def socket_join_def js_def Let_def)

lemma first_step:
  "exchanging (net_step toy generated twoClients) \<and>
   wire (net_step toy generated twoClients) = keyFromA"
proof -
  have k: "keyPair (generateKeyPair \<lparr>publicKey = 3 :: byte, privateKey = 3 :: byte\<rparr> newEncryptionService)
      = Some \<lparr>publicKey = 3, privateKey = 3\<rparr>"
    by (simp add: generateKeyPair_def)
  have ne: "js ''A'' \<noteq> js ''B''" "js ''A'' \<noteq> []"
    by (simp_all add: js_def)
  have w: "wire twoClients = [(js ''B'', join_room (js ''R'') (js ''B''))]"
    by (simp add: twoClients_def)
  have d: "on_event (js ''B'') (join_room (js ''R'') (js ''B'')) (adapterOf twoClients) =
      (socket_join (js ''B'') (js ''R'') (adapterOf twoClients),
       [(js ''A'', user_connected (js ''B''))])"
    using ne by (simp add: Let_def socket_to_emit_def twoClients_joined)
  have c: "clientOf twoClients (js ''A'') =
      (Some (js ''A''), generateKeyPair \<lparr>publicKey = 3, privateKey = 3\<rparr> newEncryptionService)"
    "clientOf twoClients (js ''B'') =
      (Some (js ''B''), generateKeyPair \<lparr>publicKey = 5, privateKey = 5\<rparr> newEncryptionService)"
    using ne by (simp_all add: twoClients_def)
  have h: "handleUserConnected toy generated (Some (js ''A''))
        (generateKeyPair \<lparr>publicKey = 3, privateKey = 3\<rparr> newEncryptionService) (js ''B'') =
      (generateKeyPair \<lparr>publicKey = 3, privateKey = 3\<rparr> newEncryptionService,
       [exchange_keys (js ''A'') [3] (js ''B'')])"
    using ne(2) by (simp add: handleUserConnected_def toy_export [OF k] truthy_def)
  have s: "net_step toy generated twoClients =
      \<lparr>adapterOf = socket_join (js ''B'') (js ''R'') (adapterOf twoClients),
       clientOf = (clientOf twoClients)(js ''A'' :=
          (Some (js ''A''), generateKeyPair \<lparr>publicKey = 3, privateKey = 3\<rparr> newEncryptionService)),
       wire = keyFromA\<rparr>"
    unfolding net_step_def w by (simp add: d c(1) h keyFromA_def del: on_event.simps)
  show ?thesis
    unfolding s using ne(1) by (simp add: exchanging_def twoClients_joined c k generateKeyPair_def)
qed

lemma exchange_rounds:
  "exchanging ((net_step toy generated ^^ (2 * n + 1)) twoClients) \<and>
   wire ((net_step toy generated ^^ (2 * n + 1)) twoClients) = keyFromA"
proof (induction n)
  case 0
  then show ?case
    using first_step by simp
next
  case (Suc n)
  have "(net_step toy generated ^^ (2 * Suc n + 1)) twoClients =
      net_step toy generated (net_step toy generated
        ((net_step toy generated ^^ (2 * n + 1)) twoClients))"
    by simp
  then show ?case
    using Suc A_to_B B_to_A by metis
qed

text \<open>
  C2 does not hold of the code. \<open>handleKeyExchange\<close> sends the local key back to
  whoever sent a key, and keeps no record of the peers it has sent its key to. Once B
  joins the room of A, A sends its key to B at every odd step of the network and B sends
  its key to A at every even step after that: each sends its key to the other again and
  again, and the exchange of \<open>exchange-keys\<close> events between the two never ends.
\<close>

theorem key_exchange_never_stops:
  "wire ((net_step toy generated ^^ (2 * n + 1)) twoClients) =
     [(js ''A'', exchange_keys (js ''A'') [3] (js ''B''))] \<and>
   wire ((net_step toy generated ^^ (2 * n + 2)) twoClients) =
     [(js ''B'', exchange_keys (js ''B'') [5] (js ''A''))]"
proof -
  have "(net_step toy generated ^^ (2 * n + 2)) twoClients =
      net_step toy generated ((net_step toy generated ^^ (2 * n + 1)) twoClients)"
    by simp
  then show ?thesis
    using exchange_rounds [where generated = generated and n = n] A_to_B
    by (metis keyFromA_def keyFromB_def)
qed

text \<open>The third and the fourth step.\<close>

theorem key_exchange_never_stops_witness:
  "wire ((net_step toy \<lparr>publicKey = 0, privateKey = 0\<rparr> ^^ 3) twoClients) =
     [(js ''A'', exchange_keys (js ''A'') [3] (js ''B''))] \<and>
   wire ((net_step toy \<lparr>publicKey = 0, privateKey = 0\<rparr> ^^ 4) twoClients) =
     [(js ''B'', exchange_keys (js ''B'') [5] (js ''A''))]"
  using key_exchange_never_stops [where generated = "\<lparr>publicKey = 0, privateKey = 0\<rparr>" and n = 1]
  by (simp add: numeral_3_eq_3 numeral_Bit0 del: funpow.simps)

end
